theory Spec2Isabelle
  imports Main
begin

section \<open>Exceptions and outcomes\<close>

text \<open>
  The driver's exception hierarchy, as far as \<^verbatim>\<open>psycopg3_connector.py\<close> tells its
  members apart: \<^verbatim>\<open>psycopg.errors.UniqueViolation\<close> (with \<^verbatim>\<open>exc.diag.constraint_name\<close>,
  which the driver types as an optional string), \<^verbatim>\<open>psycopg.errors.OperationalError\<close>, and
  every other subclass of \<^verbatim>\<open>psycopg.Error\<close>. The first field of each is \<^verbatim>\<open>str(exc)\<close>.
\<close>

datatype psycopg_error =
    Psycopg_UniqueViolation string "string option"
  | Psycopg_OperationalError string
  | Psycopg_Error string

text \<open>
  Everything a coroutine of the module can raise: a driver error, one of the three
  exceptions of \<^verbatim>\<open>procrastinate.exceptions\<close> the module names (\<^verbatim>\<open>UniqueViolation\<close> with
  its \<^verbatim>\<open>constraint_name\<close>, \<^verbatim>\<open>ConnectorException\<close> with its optional message and its
  \<^verbatim>\<open>__cause__\<close>, \<^verbatim>\<open>AppNotOpen\<close>), or any other Python exception.
\<close>

datatype exc =
    Driver psycopg_error
  | UniqueViolation "string option"
  | ConnectorException "string option" "exc option"
  | AppNotOpen
  | PyException string

text \<open>
  An awaited coroutine returns, raises, or is still pending (it never completed within
  the part of the run that is observed).
\<close>

datatype 'a outcome = Return 'a | Raise exc | Pending

text \<open>A coroutine function applied to its arguments: it acts on the outside world \<open>'s\<close>.\<close>

type_synonym ('a, 's) coroutine = "'s \<Rightarrow> 'a outcome \<times> 's"

fun is_OperationalError :: "exc \<Rightarrow> bool" where
  "is_OperationalError (Driver (Psycopg_OperationalError m)) = True"
| "is_OperationalError e = False"

fun is_Driver :: "exc \<Rightarrow> bool" where
  "is_Driver (Driver d) = True"
| "is_Driver e = False"

section \<open>Strings\<close>

text \<open>Python's \<^verbatim>\<open>needle in haystack\<close> on strings, and \<^verbatim>\<open>str\<close> of an integer.\<close>

fun startswith :: "string \<Rightarrow> string \<Rightarrow> bool" where
  "startswith hay [] = True"
| "startswith [] (n # ns) = False"
| "startswith (h # hs) (n # ns) = (h = n \<and> startswith hs ns)"

fun str_in :: "string \<Rightarrow> string \<Rightarrow> bool" where
  "str_in needle [] = startswith [] needle"
| "str_in needle (h # hs) = (startswith (h # hs) needle \<or> str_in needle hs)"

definition digit :: "nat \<Rightarrow> char" where
  "digit d = char_of (48 + d)"

fun str_nat :: "nat \<Rightarrow> string" where
  "str_nat n = (if n < 10 then [digit n] else str_nat (n div 10) @ [digit (n mod 10)])"

declare str_nat.simps [simp del]

definition str_int :: "int \<Rightarrow> string" where
  "str_int i = (if i < 0 then CHR ''-'' # str_nat (nat (- i)) else str_nat (nat i))"

section \<open>The connector object\<close>

text \<open>
  A pool handle: its identity and its \<^verbatim>\<open>max_size\<close>. The connector's attributes are those
  \<^verbatim>\<open>__init__\<close> sets; the leading underscore of the private ones is written \<open>priv_\<close>.
  The encoder, the decoder and the pool arguments are opaque values.
\<close>

record connection_pool =
  pool_id :: nat
  max_size :: int

record ('d, 'l, 'a) connector =
  json_dumps :: "'d option"
  json_loads :: "'l option"
  priv_pool :: "connection_pool option"
  priv_pool_args :: 'a
  priv_pool_externally_set :: bool

section \<open>The error classifier: \<^verbatim>\<open>wrap_exceptions\<close>\<close>

text \<open>The two \<^verbatim>\<open>except\<close> clauses, in the source's order; anything else is not caught.\<close>

fun translate :: "exc \<Rightarrow> exc" where
  "translate (Driver (Psycopg_UniqueViolation m c)) = UniqueViolation c"
| "translate (Driver d) = ConnectorException None (Some (Driver d))"
| "translate e = e"

definition wrap_exceptions :: "('a, 's) coroutine \<Rightarrow> ('a, 's) coroutine" where
  "wrap_exceptions coro s =
     (case coro s of
        (Return v, s') \<Rightarrow> (Return v, s')
      | (Raise e, s') \<Rightarrow> (Raise (translate e), s')
      | (Pending, s') \<Rightarrow> (Pending, s'))"

section \<open>The query retrier: \<^verbatim>\<open>wrap_query_exceptions\<close>\<close>

definition stale_message :: string where
  "stale_message = ''server closed the connection unexpectedly''"

text \<open>
  \<^verbatim>\<open>max_tries = args[0]._pool.max_size + 1\<close>, and \<open>1\<close> when reading it raises (no pool
  is set).
\<close>

definition max_tries :: "('d, 'l, 'a) connector \<Rightarrow> int" where
  "max_tries self = (case priv_pool self of Some p \<Rightarrow> max_size p + 1 | None \<Rightarrow> 1)"

definition exhausted_message :: "int \<Rightarrow> string" where
  "exhausted_message n = ''Could not get a valid connection after '' @ str_int n @ '' tries''"

text \<open>
  The \<^verbatim>\<open>for _ in range(max_tries)\<close> loop with \<open>n\<close> iterations left; \<open>final_exc\<close> is the
  variable of the source, \<open>tries\<close> the value of \<^verbatim>\<open>max_tries\<close> for the message.
\<close>

fun retry_loop ::
  "nat \<Rightarrow> int \<Rightarrow> ('a, 's) coroutine \<Rightarrow> exc option \<Rightarrow> ('a, 's) coroutine" where
  "retry_loop 0 tries coro final_exc s =
     (Raise (ConnectorException (Some (exhausted_message tries)) final_exc), s)"
| "retry_loop (Suc n) tries coro final_exc s =
     (case coro s of
        (Return v, s') \<Rightarrow> (Return v, s')
      | (Pending, s') \<Rightarrow> (Pending, s')
      | (Raise e, s') \<Rightarrow>
          (case e of
             Driver (Psycopg_OperationalError m) \<Rightarrow>
               if str_in stale_message m then retry_loop n tries coro (Some e) s'
               else (Raise e, s')
           | _ \<Rightarrow> (Raise e, s')))"

definition wrap_query_exceptions ::
  "('d, 'l, 'a) connector \<Rightarrow> ('a1, 's) coroutine \<Rightarrow> ('a1, 's) coroutine" where
  "wrap_query_exceptions self coro s =
     retry_loop (nat (max_tries self)) (max_tries self) coro None s"

text \<open>
  A spy on a coroutine: it keeps, beside the world, the list of the outcomes of the
  calls made so far, so that the number of attempts and the failure of each are visible.
\<close>

definition spied :: "('a, 's) coroutine \<Rightarrow> ('a, 'a outcome list \<times> 's) coroutine" where
  "spied coro ls =
     (case coro (snd ls) of (r, s') \<Rightarrow> (r, (fst ls @ [r], s')))"

text \<open>
  The failure the retrier swallows, and a coroutine that fails with it \<open>k\<close> times in a
  row from the world \<open>s\<close> on (the result is the world after the \<open>k\<close> failures).
\<close>

fun is_stale :: "exc \<Rightarrow> bool" where
  "is_stale (Driver (Psycopg_OperationalError m)) = str_in stale_message m"
| "is_stale e = False"

fun fails_stale :: "nat \<Rightarrow> ('a, 's) coroutine \<Rightarrow> 's \<Rightarrow> 's option" where
  "fails_stale 0 coro s = Some s"
| "fails_stale (Suc k) coro s =
     (case coro s of
        (Raise e, s') \<Rightarrow> if is_stale e then fails_stale k coro s' else None
      | (Return v, s') \<Rightarrow> None
      | (Pending, s') \<Rightarrow> None)"

section \<open>The driver and the pool, as the connector uses them\<close>

text \<open>
  The collaborators are outside the module: the pool constructor
  \<^verbatim>\<open>psycopg_pool.AsyncConnectionPool(**pool_args)\<close>, a pool's \<^verbatim>\<open>open\<close>, \<^verbatim>\<open>close\<close> and
  \<^verbatim>\<open>connection\<close> (entering and leaving the \<^verbatim>\<open>async with\<close> block), a connection's
  \<^verbatim>\<open>set_autocommit\<close>, \<^verbatim>\<open>execute\<close>, \<^verbatim>\<open>closed\<close> and the next item of its \<^verbatim>\<open>notifies()\<close>
  generator (\<open>None\<close> when the generator ends), and the template
  \<^verbatim>\<open>sql.queries["listen_queue"]\<close>. They are parameters: each acts on the world \<open>'w\<close> in a
  way the connector does not control.
\<close>

type_synonym conn = nat

datatype query = Composed string string

record ('a, 'w) driver =
  AsyncConnectionPool :: "'a \<Rightarrow> (connection_pool, 'w) coroutine"
  pool_open :: "connection_pool \<Rightarrow> (unit, 'w) coroutine"
  pool_close :: "connection_pool \<Rightarrow> (unit, 'w) coroutine"
  pool_connection :: "connection_pool \<Rightarrow> (conn, 'w) coroutine"
  pool_connection_exit :: "connection_pool \<Rightarrow> conn \<Rightarrow> (unit, 'w) coroutine"
  set_autocommit :: "conn \<Rightarrow> bool \<Rightarrow> (unit, 'w) coroutine"
  execute :: "conn \<Rightarrow> query \<Rightarrow> (unit, 'w) coroutine"
  closed :: "conn \<Rightarrow> 'w \<Rightarrow> bool"
  notifies_next :: "conn \<Rightarrow> (unit option, 'w) coroutine"
  listen_queue :: string

section \<open>The pool manager: \<^verbatim>\<open>open_async\<close>, \<^verbatim>\<open>close_async\<close>, \<^verbatim>\<open>pool\<close>\<close>

text \<open>
  The connector is a mutable object, so these coroutines act on the pair of the connector
  and the world. A pool object is always true in a condition, \<^verbatim>\<open>None\<close> is false.
\<close>

definition create_pool :: "('a, 'w) driver \<Rightarrow> 'a \<Rightarrow> (connection_pool, 'w) coroutine" where
  "create_pool env pool_args = wrap_exceptions (AsyncConnectionPool env pool_args)"

text \<open>The last statement of \<^verbatim>\<open>open_async\<close>: \<^verbatim>\<open>await self._pool.open()\<close>.\<close>

definition ensure_open ::
  "('a, 'w) driver \<Rightarrow> connection_pool \<Rightarrow> (unit, ('d, 'l, 'a) connector \<times> 'w) coroutine" where
  "ensure_open env p sw =
     (case pool_open env p (snd sw) of (r, w') \<Rightarrow> (r, (fst sw, w')))"

definition open_async ::
  "('a, 'w) driver \<Rightarrow> connection_pool option \<Rightarrow> (unit, ('d, 'l, 'a) connector \<times> 'w) coroutine" where
  "open_async env pool_arg sw =
     (case sw of (self, w) \<Rightarrow>
        (case priv_pool self of
           Some p0 \<Rightarrow> (Return (), (self, w))
         | None \<Rightarrow>
             (case pool_arg of
                Some p \<Rightarrow>
                  ensure_open env p
                    (self\<lparr>priv_pool_externally_set := True, priv_pool := Some p\<rparr>, w)
              | None \<Rightarrow>
                  (case create_pool env (priv_pool_args self) w of
                     (Return p, w') \<Rightarrow> ensure_open env p (self\<lparr>priv_pool := Some p\<rparr>, w')
                   | (Raise e, w') \<Rightarrow> (Raise e, (self, w'))
                   | (Pending, w') \<Rightarrow> (Pending, (self, w'))))))"

definition close_async_body ::
  "('a, 'w) driver \<Rightarrow> (unit, ('d, 'l, 'a) connector \<times> 'w) coroutine" where
  "close_async_body env sw =
     (case sw of (self, w) \<Rightarrow>
        (case priv_pool self of
           None \<Rightarrow> (Return (), (self, w))
         | Some p \<Rightarrow>
             if priv_pool_externally_set self then (Return (), (self, w))
             else
               (case pool_close env p w of
                  (Return u, w') \<Rightarrow> (Return (), (self\<lparr>priv_pool := None\<rparr>, w'))
                | (Raise e, w') \<Rightarrow> (Raise e, (self, w'))
                | (Pending, w') \<Rightarrow> (Pending, (self, w')))))"

definition close_async ::
  "('a, 'w) driver \<Rightarrow> (unit, ('d, 'l, 'a) connector \<times> 'w) coroutine" where
  "close_async env = wrap_exceptions (close_async_body env)"

definition pool :: "('d, 'l, 'a) connector \<Rightarrow> exc + connection_pool" where
  "pool self = (case priv_pool self of None \<Rightarrow> Inl AppNotOpen | Some p \<Rightarrow> Inr p)"

section \<open>The query executor's parameter adaptation: \<^verbatim>\<open>_wrap_json\<close>\<close>

text \<open>
  Python values as far as \<^verbatim>\<open>isinstance(value, dict)\<close> tells them apart, and the driver's
  wrapper \<^verbatim>\<open>psycopg.types.json.Jsonb(value, dumps=...)\<close>. The keyword arguments are a
  dictionary with string keys, kept in insertion order.
\<close>

datatype 'd py_value =
    PyNone
  | PyBool bool
  | PyInt int
  | PyStr string
  | PyList "'d py_value list"
  | PyDict "('d py_value \<times> 'd py_value) list"
  | Jsonb "'d py_value" "'d option"

fun isinstance_dict :: "'d py_value \<Rightarrow> bool" where
  "isinstance_dict (PyDict kvs) = True"
| "isinstance_dict v = False"

definition wrap_json ::
  "('d, 'l, 'a) connector \<Rightarrow> (string \<times> 'd py_value) list \<Rightarrow> (string \<times> 'd py_value) list" where
  "wrap_json self arguments =
     map (\<lambda>(key, v). (key, if isinstance_dict v then Jsonb v (json_dumps self) else v))
       arguments"

section \<open>The notification bridge: \<^verbatim>\<open>listen_notify\<close>, \<^verbatim>\<open>_loop_notify\<close>\<close>

text \<open>
  What the bridge does to its collaborators, in program order, each call with its
  outcome: the warning it logs, entering and leaving \<^verbatim>\<open>self.pool.connection()\<close>,
  \<^verbatim>\<open>set_autocommit\<close>, \<^verbatim>\<open>execute\<close>, reading \<^verbatim>\<open>connection.closed\<close>, asking the
  \<^verbatim>\<open>notifies()\<close> generator for its next item, and the two mutations an \<^verbatim>\<open>asyncio.Event\<close>
  has, \<^verbatim>\<open>set()\<close> and \<^verbatim>\<open>clear()\<close>.
\<close>

datatype action =
    Warning
  | Connection "conn outcome"
  | ConnectionExit conn "unit outcome"
  | SetAutocommit conn bool "unit outcome"
  | Execute conn query "unit outcome"
  | Closed conn bool
  | Notifies conn "unit option outcome"
  | EventSet
  | EventClear

text \<open>
  The state of a run: the world, the flag of the shared event, and the actions so far.
\<close>

record 'w bridge_state =
  world :: 'w
  signal :: bool
  trace :: "action list"

text \<open>One call of a collaborator, recorded with its outcome.\<close>

definition perform ::
  "('a, 'w) coroutine \<Rightarrow> ('a outcome \<Rightarrow> action) \<Rightarrow> ('a, 'w bridge_state) coroutine" where
  "perform call act s =
     (case call (world s) of (r, w') \<Rightarrow> (r, s\<lparr>world := w', trace := trace s @ [act r]\<rparr>))"

text \<open>\<^verbatim>\<open>event.set()\<close>.\<close>

definition event_set :: "'w bridge_state \<Rightarrow> 'w bridge_state" where
  "event_set s = s\<lparr>signal := True, trace := trace s @ [EventSet]\<rparr>"

text \<open>
  \<^verbatim>\<open>query_template.format(channel_name=psycopg.sql.Identifier(channel_name))\<close>: the
  template and the identifier it is composed with.
\<close>

definition listen_query :: "('a, 'w) driver \<Rightarrow> string \<Rightarrow> query" where
  "listen_query env channel_name = Composed (listen_queue env) channel_name"

text \<open>
  The argument \<^verbatim>\<open>channels: Iterable[str]\<close> is an object that is iterated once at every
  pass of the outer loop. It is either an object that starts again from its first name
  each time it is iterated (a list, a tuple), or a one-shot iterator (an iterator, a
  generator), which yields each name once: what is left of it are the names it has not
  yielded yet.
\<close>

datatype channels = Sequence "string list" | Iterator "string list"

text \<open>
  The body of the loop \<^verbatim>\<open>for channel_name in channels\<close>, run on the names the iterator of
  the loop has still to yield. Beside the outcome and the state it gives the names not
  yielded when the loop is left.
\<close>

fun subscribe_all ::
  "('a, 'w) driver \<Rightarrow> conn \<Rightarrow> string list \<Rightarrow> 'w bridge_state \<Rightarrow>
     unit outcome \<times> string list \<times> 'w bridge_state" where
  "subscribe_all env c [] s = (Return (), [], s)"
| "subscribe_all env c (channel_name # names) s =
     (case perform (execute env c (listen_query env channel_name))
             (Execute c (listen_query env channel_name)) s of
        (Return u, s') \<Rightarrow> subscribe_all env c names s'
      | (Raise e, s') \<Rightarrow> (Raise e, names, s')
      | (Pending, s') \<Rightarrow> (Pending, names, s'))"

text \<open>
  The loop \<^verbatim>\<open>for channel_name in channels\<close> on the object: a sequence is iterated from
  its start and is unchanged, a one-shot iterator goes on from where it was and keeps
  only what the loop has not taken.
\<close>

definition for_channels ::
  "('a, 'w) driver \<Rightarrow> conn \<Rightarrow> channels \<Rightarrow> 'w bridge_state \<Rightarrow>
     unit outcome \<times> channels \<times> 'w bridge_state" where
  "for_channels env c channels s =
     (case channels of
        Sequence names \<Rightarrow>
          (case subscribe_all env c names s of (r, rest, s') \<Rightarrow> (r, Sequence names, s'))
      | Iterator names \<Rightarrow>
          (case subscribe_all env c names s of (r, rest, s') \<Rightarrow> (r, Iterator rest, s')))"

text \<open>
  The loops that need not end take fuel: a bound on the nesting of their iterations. When
  it runs out the run is cut and its outcome is \<open>Pending\<close>, with the state reached.

  \<^verbatim>\<open>async for _ in notifies: event.set()\<close>.
\<close>

fun notifies_loop ::
  "nat \<Rightarrow> ('a, 'w) driver \<Rightarrow> conn \<Rightarrow> (unit, 'w bridge_state) coroutine" where
  "notifies_loop 0 env c s = (Pending, s)"
| "notifies_loop (Suc n) env c s =
     (case perform (notifies_next env c) (Notifies c) s of
        (Return None, s') \<Rightarrow> (Return (), s')
      | (Return (Some u), s') \<Rightarrow> notifies_loop n env c (event_set s')
      | (Raise e, s') \<Rightarrow> (Raise e, s')
      | (Pending, s') \<Rightarrow> (Pending, s'))"

text \<open>The \<^verbatim>\<open>while True\<close> of \<^verbatim>\<open>_loop_notify\<close>, and the decorated method.\<close>

fun loop_notify_body ::
  "nat \<Rightarrow> ('a, 'w) driver \<Rightarrow> conn \<Rightarrow> (unit, 'w bridge_state) coroutine" where
  "loop_notify_body 0 env c s = (Pending, s)"
| "loop_notify_body (Suc n) env c s =
     (if closed env c (world s) then (Return (), s\<lparr>trace := trace s @ [Closed c True]\<rparr>)
      else
        (case notifies_loop n env c (s\<lparr>trace := trace s @ [Closed c False]\<rparr>) of
           (Return u, s') \<Rightarrow> loop_notify_body n env c s'
         | (Raise e, s') \<Rightarrow>
             if is_OperationalError e then loop_notify_body n env c s' else (Raise e, s')
         | (Pending, s') \<Rightarrow> (Pending, s')))"

definition loop_notify ::
  "nat \<Rightarrow> ('a, 'w) driver \<Rightarrow> conn \<Rightarrow> (unit, 'w bridge_state) coroutine" where
  "loop_notify n env c = wrap_exceptions (loop_notify_body n env c)"

text \<open>
  The block under \<^verbatim>\<open>async with self.pool.connection() as connection\<close>; it gives back
  the channels object as the block leaves it.
\<close>

definition listen_block ::
  "nat \<Rightarrow> ('a, 'w) driver \<Rightarrow> conn \<Rightarrow> channels \<Rightarrow> 'w bridge_state \<Rightarrow>
     unit outcome \<times> channels \<times> 'w bridge_state" where
  "listen_block n env c channels s =
     (case perform (set_autocommit env c True) (SetAutocommit c True) s of
        (Return u, s1) \<Rightarrow>
          (case for_channels env c channels s1 of
             (Return u', channels', s2) \<Rightarrow>
               (case loop_notify n env c (event_set s2) of (r, s3) \<Rightarrow> (r, channels', s3))
           | (Raise e, channels', s2) \<Rightarrow> (Raise e, channels', s2)
           | (Pending, channels', s2) \<Rightarrow> (Pending, channels', s2))
      | (Raise e, s1) \<Rightarrow> (Raise e, channels, s1)
      | (Pending, s1) \<Rightarrow> (Pending, channels, s1))"

text \<open>
  Leaving the \<^verbatim>\<open>async with\<close> block with the outcome \<open>r\<close> of the block: an exception
  raised on the way out replaces it.
\<close>

definition leave ::
  "('a, 'w) driver \<Rightarrow> connection_pool \<Rightarrow> conn \<Rightarrow> unit outcome \<Rightarrow> (unit, 'w bridge_state) coroutine" where
  "leave env p c r s =
     (case perform (pool_connection_exit env p c) (ConnectionExit c) s of
        (Return u, s') \<Rightarrow> (r, s')
      | (Raise e, s') \<Rightarrow> (Raise e, s')
      | (Pending, s') \<Rightarrow> (Pending, s'))"

text \<open>
  The \<^verbatim>\<open>while True\<close> of \<^verbatim>\<open>listen_notify\<close>: the next pass iterates the channels object
  as the pass before left it.
\<close>

fun listen_loop ::
  "nat \<Rightarrow> ('a, 'w) driver \<Rightarrow> ('d, 'l, 'a) connector \<Rightarrow> channels \<Rightarrow>
     (unit, 'w bridge_state) coroutine" where
  "listen_loop 0 env self channels s = (Pending, s)"
| "listen_loop (Suc n) env self channels s =
     (case pool self of
        Inl e \<Rightarrow> (Raise e, s)
      | Inr p \<Rightarrow>
          (case perform (pool_connection env p) Connection s of
             (Raise e, s1) \<Rightarrow> (Raise e, s1)
           | (Pending, s1) \<Rightarrow> (Pending, s1)
           | (Return c, s1) \<Rightarrow>
               (case listen_block n env c channels s1 of
                  (Pending, channels', s2) \<Rightarrow> (Pending, s2)
                | (Raise e, channels', s2) \<Rightarrow> leave env p c (Raise e) s2
                | (Return u, channels', s2) \<Rightarrow>
                    (case leave env p c (Return ()) s2 of
                       (Return u', s3) \<Rightarrow> listen_loop n env self channels' s3
                     | (Raise e, s3) \<Rightarrow> (Raise e, s3)
                     | (Pending, s3) \<Rightarrow> (Pending, s3)))))"

definition listen_notify_body ::
  "nat \<Rightarrow> ('a, 'w) driver \<Rightarrow> ('d, 'l, 'a) connector \<Rightarrow> channels \<Rightarrow>
     (unit, 'w bridge_state) coroutine" where
  "listen_notify_body n env self channels s =
     (case pool self of
        Inl e \<Rightarrow> (Raise e, s)
      | Inr p \<Rightarrow>
          if max_size p = 1 then (Return (), s\<lparr>trace := trace s @ [Warning]\<rparr>)
          else listen_loop n env self channels s)"

definition listen_notify ::
  "nat \<Rightarrow> ('a, 'w) driver \<Rightarrow> ('d, 'l, 'a) connector \<Rightarrow> channels \<Rightarrow>
     (unit, 'w bridge_state) coroutine" where
  "listen_notify n env self channels = wrap_exceptions (listen_notify_body n env self channels)"

text \<open>
  The discipline of the shared signal, checked along a trace. The checker follows the
  dedicated connection: entering \<^verbatim>\<open>pool.connection()\<close> makes the connection obtained the
  current one, with nothing subscribed; a statement that succeeded on the current
  connection is added to those subscribed; leaving the block ends the connection. The
  trace is accepted when it never clears the signal, and sets it only while a connection
  is current on which exactly the statements \<open>qs\<close> have succeeded, in their order.
\<close>

fun track :: "conn option \<times> query list \<Rightarrow> action \<Rightarrow> conn option \<times> query list" where
  "track st (Connection (Return c)) = (Some c, [])"
| "track st (ConnectionExit c r) = (None, [])"
| "track st (Execute c q (Return u)) =
     (if fst st = Some c then (fst st, snd st @ [q]) else st)"
| "track st a = st"

fun signal_discipline :: "query list \<Rightarrow> conn option \<times> query list \<Rightarrow> action list \<Rightarrow> bool" where
  "signal_discipline qs st [] = True"
| "signal_discipline qs st (EventClear # as) = False"
| "signal_discipline qs st (EventSet # as) =
     (fst st \<noteq> None \<and> snd st = qs \<and> signal_discipline qs st as)"
| "signal_discipline qs st (a # as) = signal_discipline qs (track st a) as"

section \<open>Example inputs\<close>

text \<open>
  Concrete connectors, failures and coroutines on which the properties below are
  evaluated. The world of the example coroutines is a counter of the calls made.
\<close>

definition stale_failure :: exc where
  "stale_failure =
     Driver (Psycopg_OperationalError
       ''consuming input failed: server closed the connection unexpectedly'')"

definition other_failure :: exc where
  "other_failure = Driver (Psycopg_OperationalError ''connection timeout expired'')"

definition example_pool :: connection_pool where
  "example_pool = \<lparr>pool_id = 0, max_size = 2\<rparr>"

definition example_connector :: "(unit, unit, unit) connector" where
  "example_connector =
     \<lparr>json_dumps = None, json_loads = None, priv_pool = Some example_pool,
      priv_pool_args = (), priv_pool_externally_set = False\<rparr>"

definition unopened_connector :: "(unit, unit, unit) connector" where
  "unopened_connector =
     \<lparr>json_dumps = None, json_loads = None, priv_pool = None,
      priv_pool_args = (), priv_pool_externally_set = False\<rparr>"

definition always_stale :: "(string, nat) coroutine" where
  "always_stale s = (Raise stale_failure, Suc s)"

definition stale_until :: "nat \<Rightarrow> (string, nat) coroutine" where
  "stale_until k s = (if s < k then (Raise stale_failure, Suc s) else (Return ''row'', Suc s))"

definition always_other :: "(string, nat) coroutine" where
  "always_other s = (Raise other_failure, Suc s)"

definition duplicate_key :: "(unit, nat) coroutine" where
  "duplicate_key s =
     (Raise (Driver (Psycopg_UniqueViolation
        ''duplicate key value violates unique constraint'' (Some ''procrastinate_jobs_lock_idx''))),
      Suc s)"

text \<open>
  An example driver whose world is a clock: every call takes one tick, a connection is
  named by the tick it was obtained at and is closed by the server six ticks later, after
  which its notification stream fails.
\<close>

definition connection_lost :: exc where
  "connection_lost = Driver (Psycopg_OperationalError ''the connection is closed'')"

definition example_driver :: "(unit, nat) driver" where
  "example_driver =
     \<lparr>AsyncConnectionPool = (\<lambda>pool_args w. (Return \<lparr>pool_id = w, max_size = 10\<rparr>, Suc w)),
      pool_open = (\<lambda>p w. (Return (), Suc w)),
      pool_close = (\<lambda>p w. (Return (), Suc w)),
      pool_connection = (\<lambda>p w. (Return w, Suc w)),
      pool_connection_exit = (\<lambda>p c w. (Return (), Suc w)),
      set_autocommit = (\<lambda>c b w. (Return (), Suc w)),
      execute = (\<lambda>c q w. (Return (), Suc w)),
      closed = (\<lambda>c w. c + 6 \<le> w),
      notifies_next = (\<lambda>c w.
        if c + 6 \<le> w then (Raise connection_lost, Suc w) else (Return (Some ()), Suc w)),
      listen_queue = ''LISTEN {channel_name};''\<rparr>"

definition pool_closed :: exc where
  "pool_closed =
     Driver (Psycopg_OperationalError
       ''the pool has already been opened/closed and cannot be reused'')"

definition failing_pool_driver :: "(unit, nat) driver" where
  "failing_pool_driver =
     example_driver
       \<lparr>pool_open := (\<lambda>p w. (Raise pool_closed, Suc w)),
        pool_close := (\<lambda>p w. (Raise pool_closed, Suc w))\<rparr>"

definition single_connector :: "(unit, unit, unit) connector" where
  "single_connector =
     \<lparr>json_dumps = None, json_loads = None,
      priv_pool = Some \<lparr>pool_id = 0, max_size = 1\<rparr>,
      priv_pool_args = (), priv_pool_externally_set = False\<rparr>"

definition custom_connector :: "(string, unit, unit) connector" where
  "custom_connector =
     \<lparr>json_dumps = Some ''custom_dumps'', json_loads = None, priv_pool = None,
      priv_pool_args = (), priv_pool_externally_set = False\<rparr>"

definition initial :: "nat bridge_state" where
  "initial = \<lparr>world = 0, signal = False, trace = []\<rparr>"

definition external_pool :: connection_pool where
  "external_pool = \<lparr>pool_id = 7, max_size = 4\<rparr>"

definition adopted_connector :: "(unit, unit, unit) connector" where
  "adopted_connector =
     \<lparr>json_dumps = None, json_loads = None, priv_pool = Some external_pool,
      priv_pool_args = (), priv_pool_externally_set = True\<rparr>"

definition example_arguments :: "(string \<times> string py_value) list" where
  "example_arguments =
     [(''queue'', PyStr ''default''),
      (''args'', PyDict [(PyStr ''a'', PyInt 1)]),
      (''ids'', PyList [PyInt 1, PyInt 2]),
      (''lock'', PyNone)]"

section \<open>Properties of the retrier and of the classifier\<close>

lemma startswith_iff: "startswith h n \<longleftrightarrow> (\<exists>q. h = n @ q)"
  by (induction h n rule: startswith.induct) auto

lemma str_in_iff: "str_in n h \<longleftrightarrow> (\<exists>p q. h = p @ n @ q)"
proof (induction h)
  case Nil
  show ?case by (simp add: startswith_iff)
next
  case (Cons a h)
  show ?case
  proof
    assume "str_in n (a # h)"
    then consider "startswith (a # h) n" | "str_in n h" by auto
    then show "\<exists>p q. a # h = p @ n @ q"
    proof cases
      case 1
      then obtain q where "a # h = n @ q" by (auto simp: startswith_iff)
      then have "a # h = [] @ n @ q" by simp
      then show ?thesis by blast
    next
      case 2
      then obtain p q where "h = p @ n @ q" using Cons.IH by blast
      then have "a # h = (a # p) @ n @ q" by simp
      then show ?thesis by blast
    qed
  next
    assume "\<exists>p q. a # h = p @ n @ q"
    then obtain p q where e: "a # h = p @ n @ q" by blast
    show "str_in n (a # h)"
    proof (cases p)
      case Nil
      then have "startswith (a # h) n" using e by (auto simp: startswith_iff)
      then show ?thesis by simp
    next
      case (Cons b p')
      then have "h = p' @ n @ q" using e by simp
      then have "str_in n h" using Cons.IH by blast
      then show ?thesis by simp
    qed
  qed
qed

lemma retry_stale_step:
  "coro s = (Raise e, s') \<Longrightarrow> is_stale e \<Longrightarrow>
   retry_loop (Suc n) t (spied coro) fe (log, s) = retry_loop n t (spied coro) (Some e) (log @ [Raise e], s')"
  by (cases e rule: is_stale.cases) (auto simp: spied_def)

lemma retry_other_step:
  "coro s = (Raise e, s') \<Longrightarrow> \<not> is_stale e \<Longrightarrow>
   retry_loop (Suc n) t (spied coro) fe (log, s) = (Raise e, (log @ [Raise e], s'))"
  by (cases e rule: is_stale.cases) (auto simp: spied_def)

lemma retry_return_step:
  "coro s = (Return v, s') \<Longrightarrow>
   retry_loop (Suc n) t (spied coro) fe (log, s) = (Return v, (log @ [Return v], s'))"
  by (auto simp: spied_def)

lemma retry_pending_step:
  "coro s = (Pending, s') \<Longrightarrow>
   retry_loop (Suc n) t (spied coro) fe (log, s) = (Pending, (log @ [Pending], s'))"
  by (auto simp: spied_def)

lemma retry_always_stale:
  assumes "\<forall>s. \<exists>e s'. coro s = (Raise e, s') \<and> is_stale e"
  shows "\<exists>ext s' fe'. retry_loop n t (spied coro) fe (log, s) =
            (Raise (ConnectorException (Some (exhausted_message t)) fe'), (log @ ext, s'))
          \<and> length ext = n
          \<and> (\<forall>x \<in> set ext. \<exists>e. x = Raise e \<and> is_stale e)
          \<and> (if n = 0 then fe' = fe else \<exists>e. fe' = Some e \<and> last ext = Raise e)"
proof (induction n arbitrary: fe log s)
  case 0
  show ?case by simp
next
  case (Suc n)
  from assms obtain e s1 where c: "coro s = (Raise e, s1)" and st: "is_stale e" by blast
  from Suc.IH [of "Some e" "log @ [Raise e]" s1]
  obtain ext s' fe' where
    r: "retry_loop n t (spied coro) (Some e) (log @ [Raise e], s1) =
          (Raise (ConnectorException (Some (exhausted_message t)) fe'), ((log @ [Raise e]) @ ext, s'))"
    and l: "length ext = n"
    and a: "\<forall>x \<in> set ext. \<exists>e. x = Raise e \<and> is_stale e"
    and f: "if n = 0 then fe' = Some e else \<exists>e. fe' = Some e \<and> last ext = Raise e"
    by blast
  have "retry_loop (Suc n) t (spied coro) fe (log, s) =
          (Raise (ConnectorException (Some (exhausted_message t)) fe'), (log @ (Raise e # ext), s'))"
    using retry_stale_step [of coro s e s1, OF c st] r by simp
  moreover have "length (Raise e # ext) = Suc n" using l by simp
  moreover have "\<forall>x \<in> set (Raise e # ext). \<exists>e. x = Raise e \<and> is_stale e" using a st by auto
  moreover have "\<exists>e'. fe' = Some e' \<and> last (Raise e # ext) = Raise e'"
    using f l by (cases "n = 0") auto
  ultimately show ?case by (metis nat.simps(3))
qed


lemma retry_fails_then_returns:
  "fails_stale k coro s = Some s1 \<Longrightarrow> coro s1 = (Return v, s2) \<Longrightarrow> k < n \<Longrightarrow>
   \<exists>ext. retry_loop n t (spied coro) fe (log, s) = (Return v, (log @ ext, s2))
      \<and> length ext = Suc k \<and> last ext = Return v"
proof (induction k arbitrary: s n fe log)
  case 0
  then obtain m where n: "n = Suc m" by (cases n) auto
  from 0 have "s1 = s" by simp
  with 0 n show ?case using retry_return_step [of coro s v s2 m t fe log] by simp
next
  case (Suc k)
  then obtain m where n: "n = Suc m" and km: "k < m" by (cases n) auto
  from Suc.prems(1) obtain e s' where c: "coro s = (Raise e, s')" and st: "is_stale e"
    and f: "fails_stale k coro s' = Some s1"
    by (auto split: prod.splits outcome.splits if_splits)
  from Suc.IH [OF f Suc.prems(2) km, where fe = "Some e" and log = "log @ [Raise e]"]
  obtain ext where r: "retry_loop m t (spied coro) (Some e) (log @ [Raise e], s') =
      (Return v, ((log @ [Raise e]) @ ext, s2))" and l: "length ext = Suc k"
    and la: "last ext = Return v" by blast
  have "retry_loop n t (spied coro) fe (log, s) = (Return v, (log @ (Raise e # ext), s2))"
    using retry_stale_step [of coro s e s' m t fe log, OF c st] r n by simp
  moreover have "length (Raise e # ext) = Suc (Suc k)" using l by simp
  moreover have "last (Raise e # ext) = Return v" using l la by auto
  ultimately show ?case by blast
qed

lemma retry_log_shape:
  "retry_loop n t (spied coro) fe (log, s) = (r, (log', s')) \<Longrightarrow>
   \<exists>ext. log' = log @ ext
     \<and> (\<forall>x \<in> set (butlast ext). \<exists>e. x = Raise e \<and> is_stale e)
     \<and> (\<forall>e. ext \<noteq> [] \<and> last ext = Raise e \<and> \<not> is_stale e \<longrightarrow> r = Raise e)"
proof (induction n arbitrary: fe log s)
  case 0
  then show ?case by auto
next
  case (Suc n)
  obtain x s1 where c: "coro s = (x, s1)" by (cases "coro s")
  show ?case
  proof (cases x)
    case (Return v)
    with c Suc.prems retry_return_step [of coro s v s1 n t fe log]
    have "log' = log @ [Return v]" by simp
    then show ?thesis by auto
  next
    case Pending
    with c Suc.prems retry_pending_step [of coro s s1 n t fe log]
    have "log' = log @ [Pending]" by simp
    then show ?thesis by auto
  next
    case (Raise e)
    show ?thesis
    proof (cases "is_stale e")
      case False
      with c Raise Suc.prems retry_other_step [of coro s e s1 n t fe log]
      have "log' = log @ [Raise e]" and "r = Raise e" by simp_all
      then show ?thesis by auto
    next
      case True
      with c Raise Suc.prems retry_stale_step [of coro s e s1 n t fe log]
      have "retry_loop n t (spied coro) (Some e) (log @ [Raise e], s1) = (r, (log', s'))" by simp
      from Suc.IH [OF this] obtain ext where
        e1: "log' = (log @ [Raise e]) @ ext"
        and e2: "\<forall>x \<in> set (butlast ext). \<exists>e. x = Raise e \<and> is_stale e"
        and e3: "\<forall>e. ext \<noteq> [] \<and> last ext = Raise e \<and> \<not> is_stale e \<longrightarrow> r = Raise e"
        by blast
      have "log' = log @ (Raise e # ext)" using e1 by simp
      moreover have "\<forall>x \<in> set (butlast (Raise e # ext)). \<exists>e. x = Raise e \<and> is_stale e"
        using e2 True by auto
      moreover have "\<forall>e'. Raise e # ext \<noteq> [] \<and> last (Raise e # ext) = Raise e' \<and> \<not> is_stale e' \<longrightarrow> r = Raise e'"
        using e3 True by auto
      ultimately show ?thesis by blast
    qed
  qed
qed


lemma is_stale_stale_failure: "is_stale stale_failure"
  by (simp add: stale_failure_def stale_message_def)

lemma not_stale_other_failure: "\<not> is_stale other_failure"
  by (simp add: other_failure_def stale_message_def)

text \<open>
  C1. A query operation that raises, on every attempt, an operational failure whose
  message says the server closed the connection unexpectedly: with a pool of maximum size
  \<open>max_size\<close> (not negative), the retrier calls it exactly \<open>max_size + 1\<close> times, every
  call failing that way, and then raises \<^verbatim>\<open>ConnectorException\<close> whose message states the
  number of tries and whose cause is the failure of the last call.
\<close>
theorem retrier_exhausted:
  assumes p: "priv_pool self = Some p" and m: "0 \<le> max_size p"
    and a: "\<forall>s. \<exists>e s'. coro s = (Raise e, s') \<and> is_stale e"
  shows "\<exists>log s' e.
           wrap_query_exceptions self (spied coro) ([], s) =
             (Raise (ConnectorException
                (Some (''Could not get a valid connection after '' @ str_int (max_size p + 1)
                   @ '' tries''))
                (Some e)),
              (log, s'))
         \<and> int (length log) = max_size p + 1
         \<and> list_all (\<lambda>x. \<exists>e'. x = Raise e' \<and> is_stale e') log
         \<and> last log = Raise e"
proof -
  have t: "max_tries self = max_size p + 1" using p by (simp add: max_tries_def)
  from retry_always_stale [OF a, of "nat (max_size p + 1)" "max_size p + 1" None "[]" s]
  obtain ext s' fe' where
    r: "retry_loop (nat (max_size p + 1)) (max_size p + 1) (spied coro) None ([], s) =
          (Raise (ConnectorException (Some (exhausted_message (max_size p + 1))) fe'), ([] @ ext, s'))"
    and l: "length ext = nat (max_size p + 1)"
    and st: "\<forall>x \<in> set ext. \<exists>e. x = Raise e \<and> is_stale e"
    and f: "if nat (max_size p + 1) = 0 then fe' = None
            else \<exists>e. fe' = Some e \<and> last ext = Raise e"
    by blast
  from f m obtain e where fe: "fe' = Some e" and la: "last ext = Raise e"
    by (auto split: if_splits)
  have "wrap_query_exceptions self (spied coro) ([], s) =
          (Raise (ConnectorException
             (Some (''Could not get a valid connection after '' @ str_int (max_size p + 1)
                @ '' tries''))
             (Some e)),
           (ext, s'))"
    using r fe t by (simp add: wrap_query_exceptions_def exhausted_message_def)
  moreover have "int (length ext) = max_size p + 1" using l m by simp
  moreover have "list_all (\<lambda>x. \<exists>e'. x = Raise e' \<and> is_stale e') ext"
    using st by (simp add: list_all_iff)
  ultimately show ?thesis using la by blast
qed

lemma always_stale_fails: "\<forall>s. \<exists>e s'. always_stale s = (Raise e, s') \<and> is_stale e"
  by (simp add: always_stale_def is_stale_stale_failure)

lemma wrap_always_stale:
  "wrap_query_exceptions example_connector (spied always_stale) ([], 0) =
     (Raise (ConnectorException (Some ''Could not get a valid connection after 3 tries'')
        (Some stale_failure)),
      ([Raise stale_failure, Raise stale_failure, Raise stale_failure], 3))"
  by code_simp

theorem retrier_exhausted_witness:
  "priv_pool example_connector = Some example_pool \<and> 0 \<le> max_size example_pool
   \<and> (\<forall>s. \<exists>e s'. always_stale s = (Raise e, s') \<and> is_stale e)
   \<and> (\<exists>log s' e.
           wrap_query_exceptions example_connector (spied always_stale) ([], 0) =
             (Raise (ConnectorException
                (Some (''Could not get a valid connection after '' @ str_int (max_size example_pool + 1)
                   @ '' tries''))
                (Some e)),
              (log, s'))
         \<and> int (length log) = max_size example_pool + 1
         \<and> list_all (\<lambda>x. \<exists>e'. x = Raise e' \<and> is_stale e') log
         \<and> last log = Raise e)
   \<and> wrap_query_exceptions example_connector (spied always_stale) ([], 0) =
     (Raise (ConnectorException (Some ''Could not get a valid connection after 3 tries'')
        (Some stale_failure)),
      ([Raise stale_failure, Raise stale_failure, Raise stale_failure], 3))"
proof -
  have p: "priv_pool example_connector = Some example_pool"
    by (simp add: example_connector_def)
  have m: "0 \<le> max_size example_pool" by (simp add: example_pool_def)
  note a = always_stale_fails
  from retrier_exhausted [OF p m a, of 0] p m a wrap_always_stale show ?thesis by blast
qed

text \<open>
  C3. The retrier swallows and retries only an operational failure whose message says
  the server closed the connection unexpectedly. A first attempt (there is one as soon
  as \<^verbatim>\<open>max_tries\<close> is positive) that raises anything else, an operational failure
  with another message included, is the only attempt, and its exception is what the
  retrier raises. In any run, every attempt but the last was such a stale-connection
  failure, and a last attempt that raised anything else is raised unchanged.
\<close>
theorem retrier_retries_only_stale:
  "(coro s = (Raise e, s') \<and> \<not> is_stale e \<and> 0 < max_tries self \<longrightarrow>
      wrap_query_exceptions self (spied coro) ([], s) = (Raise e, ([Raise e], s')))
   \<and> (wrap_query_exceptions self (spied coro) ([], s) = (r, (log, s'')) \<longrightarrow>
        list_all (\<lambda>x. \<exists>e'. x = Raise e' \<and> is_stale e') (butlast log)
        \<and> (\<forall>e'. log \<noteq> [] \<and> last log = Raise e' \<and> \<not> is_stale e' \<longrightarrow> r = Raise e'))"
proof (intro conjI impI)
  assume h: "coro s = (Raise e, s') \<and> \<not> is_stale e \<and> 0 < max_tries self"
  then obtain n where n: "nat (max_tries self) = Suc n" by (cases "nat (max_tries self)") auto
  from h retry_other_step [of coro s e s' n "max_tries self" None "[]"]
  show "wrap_query_exceptions self (spied coro) ([], s) = (Raise e, ([Raise e], s'))"
    by (simp add: wrap_query_exceptions_def n)
next
  assume "wrap_query_exceptions self (spied coro) ([], s) = (r, (log, s''))"
  then have "retry_loop (nat (max_tries self)) (max_tries self) (spied coro) None ([], s) =
      (r, (log, s''))" by (simp add: wrap_query_exceptions_def)
  from retry_log_shape [OF this] obtain ext where
    e1: "log = [] @ ext"
    and e2: "\<forall>x \<in> set (butlast ext). \<exists>e. x = Raise e \<and> is_stale e"
    and e3: "\<forall>e. ext \<noteq> [] \<and> last ext = Raise e \<and> \<not> is_stale e \<longrightarrow> r = Raise e"
    by blast
  from e1 e2 show "list_all (\<lambda>x. \<exists>e'. x = Raise e' \<and> is_stale e') (butlast log)"
    by (simp add: list_all_iff)
  from e1 e3 show "\<forall>e'. log \<noteq> [] \<and> last log = Raise e' \<and> \<not> is_stale e' \<longrightarrow> r = Raise e'"
    by simp
qed

lemma wrap_always_other:
  "wrap_query_exceptions example_connector (spied always_other) ([], 0) =
     (Raise other_failure, ([Raise other_failure], 1))"
  by code_simp

lemma max_tries_example: "max_tries example_connector = 3"
  by (simp add: max_tries_def example_connector_def example_pool_def)

theorem retrier_retries_only_stale_witness:
  "always_other 0 = (Raise other_failure, 1) \<and> \<not> is_stale other_failure
   \<and> 0 < max_tries example_connector
   \<and> wrap_query_exceptions example_connector (spied always_other) ([], 0) =
       (Raise other_failure, ([Raise other_failure], 1))
   \<and> list_all (\<lambda>x. \<exists>e'. x = Raise e' \<and> is_stale e') (butlast [Raise other_failure])
   \<and> last [Raise other_failure] = Raise other_failure"
proof -
  have c: "always_other 0 = (Raise other_failure, 1)" by (simp add: always_other_def)
  have m: "0 < max_tries example_connector" by (simp add: max_tries_example)
  from retrier_retries_only_stale
    [of always_other 0 other_failure 1 example_connector "Raise other_failure"
        "[Raise other_failure]" 1]
    c m not_stale_other_failure
  show ?thesis by simp
qed

text \<open>
  C5. A query operation that fails with the stale-connection message \<open>k\<close> times in a
  row, \<open>k \<le> max_size\<close>, and then succeeds: the retrier returns the operation's value,
  after \<open>k + 1\<close> calls, of which all but the last are the stale failures.
\<close>
theorem retrier_recovers:
  assumes p: "priv_pool self = Some p" and k: "int k \<le> max_size p"
    and f: "fails_stale k coro s = Some s1" and v: "coro s1 = (Return v, s2)"
  shows "\<exists>log. wrap_query_exceptions self (spied coro) ([], s) = (Return v, (log, s2))
           \<and> length log = k + 1
           \<and> list_all (\<lambda>x. \<exists>e. x = Raise e \<and> is_stale e) (butlast log)
           \<and> last log = Return v"
proof -
  have t: "max_tries self = max_size p + 1" using p by (simp add: max_tries_def)
  have kn: "k < nat (max_tries self)" using k t by simp
  from retry_fails_then_returns [OF f v kn, of "max_tries self" None "[]"]
  obtain ext where r: "retry_loop (nat (max_tries self)) (max_tries self) (spied coro) None ([], s) =
      (Return v, ([] @ ext, s2))" and l: "length ext = Suc k"
    and la: "last ext = Return v" by blast
  from retry_log_shape [OF r] have
    b: "\<forall>x \<in> set (butlast ext). \<exists>e. x = Raise e \<and> is_stale e" by auto
  have w: "wrap_query_exceptions self (spied coro) ([], s) = (Return v, (ext, s2))"
    using r by (simp add: wrap_query_exceptions_def)
  show ?thesis using w l b la by (auto simp: list_all_iff)
qed


lemma stale_until_fails: "fails_stale 2 (stale_until 2) 0 = Some 2"
  by code_simp

lemma wrap_stale_until:
  "wrap_query_exceptions example_connector (spied (stale_until 2)) ([], 0) =
     (Return ''row'', ([Raise stale_failure, Raise stale_failure, Return ''row''], 3))"
  by code_simp

theorem retrier_recovers_witness:
  "priv_pool example_connector = Some example_pool \<and> int 2 \<le> max_size example_pool
   \<and> fails_stale 2 (stale_until 2) 0 = Some 2 \<and> stale_until 2 2 = (Return ''row'', 3)
   \<and> (\<exists>log. wrap_query_exceptions example_connector (spied (stale_until 2)) ([], 0) =
               (Return ''row'', (log, 3))
           \<and> length log = 2 + 1
           \<and> list_all (\<lambda>x. \<exists>e. x = Raise e \<and> is_stale e) (butlast log)
           \<and> last log = Return ''row'')
   \<and> wrap_query_exceptions example_connector (spied (stale_until 2)) ([], 0) =
     (Return ''row'', ([Raise stale_failure, Raise stale_failure, Return ''row''], 3))"
proof -
  have p: "priv_pool example_connector = Some example_pool"
    by (simp add: example_connector_def)
  have k: "int 2 \<le> max_size example_pool" by (simp add: example_pool_def)
  have v: "stale_until 2 2 = (Return ''row'', 3)" by (simp add: stale_until_def)
  from retrier_recovers [OF p k stale_until_fails v] p k v stale_until_fails wrap_stale_until
  show ?thesis by blast
qed

text \<open>
  C10. When the connector has no pool, the retry budget is 1: a stale-connection failure
  of the single attempt raises \<^verbatim>\<open>ConnectorException\<close> reporting 1 try, with that
  failure as cause, and the operation was called once.
\<close>
theorem retrier_without_pool:
  assumes p: "priv_pool self = None" and c: "coro s = (Raise e, s')" and st: "is_stale e"
  shows "max_tries self = 1
    \<and> wrap_query_exceptions self (spied coro) ([], s) =
        (Raise (ConnectorException (Some ''Could not get a valid connection after 1 tries'')
           (Some e)),
         ([Raise e], s'))"
proof -
  have t: "max_tries self = 1" using p by (simp add: max_tries_def)
  have m: "exhausted_message 1 = ''Could not get a valid connection after 1 tries''"
    by code_simp
  have "retry_loop (Suc 0) 1 (spied coro) None ([], s) =
          retry_loop 0 1 (spied coro) (Some e) ([] @ [Raise e], s')"
    using retry_stale_step [of coro s e s' 0 1 None "[]", OF c st] .
  then show ?thesis using t m by (simp add: wrap_query_exceptions_def)
qed

theorem retrier_without_pool_witness:
  "priv_pool unopened_connector = None \<and> always_stale 0 = (Raise stale_failure, 1)
   \<and> is_stale stale_failure \<and> max_tries unopened_connector = 1
   \<and> wrap_query_exceptions unopened_connector (spied always_stale) ([], 0) =
        (Raise (ConnectorException (Some ''Could not get a valid connection after 1 tries'')
           (Some stale_failure)),
         ([Raise stale_failure], 1))"
proof -
  have p: "priv_pool unopened_connector = None" by (simp add: unopened_connector_def)
  have c: "always_stale 0 = (Raise stale_failure, 1)" by (simp add: always_stale_def)
  from retrier_without_pool [of unopened_connector always_stale 0 stale_failure 1,
      OF p c is_stale_stale_failure] p c is_stale_stale_failure
  show ?thesis by simp
qed

text \<open>
  Where the decorator is applied, a driver failure raised by the wrapped coroutine leaves
  as exactly one of: \<^verbatim>\<open>UniqueViolation\<close> with the constraint name the driver reported,
  when it is the driver's uniqueness violation, and otherwise \<^verbatim>\<open>ConnectorException\<close> with
  the driver failure as its cause. No driver exception is ever raised by a decorated
  coroutine.
\<close>

lemma wrap_exceptions_classifies:
  "(coro s = (Raise (Driver d), s') \<longrightarrow>
      wrap_exceptions coro s =
        (Raise (case d of
                  Psycopg_UniqueViolation m c \<Rightarrow> UniqueViolation c
                | Psycopg_OperationalError m \<Rightarrow> ConnectorException None (Some (Driver d))
                | Psycopg_Error m \<Rightarrow> ConnectorException None (Some (Driver d))),
         s'))
   \<and> \<not> is_Driver (translate (Driver d))
   \<and> fst (wrap_exceptions coro s) \<noteq> Raise (Driver d')"
proof (intro conjI impI)
  assume "coro s = (Raise (Driver d), s')"
  then show "wrap_exceptions coro s =
        (Raise (case d of
                  Psycopg_UniqueViolation m c \<Rightarrow> UniqueViolation c
                | Psycopg_OperationalError m \<Rightarrow> ConnectorException None (Some (Driver d))
                | Psycopg_Error m \<Rightarrow> ConnectorException None (Some (Driver d))),
         s')"
    by (cases d) (simp_all add: wrap_exceptions_def)
next
  show "\<not> is_Driver (translate (Driver d))" by (cases d) simp_all
next
  have tr: "translate x \<noteq> Driver d'" for x
    by (cases x rule: translate.cases) simp_all
  obtain r s1 where c: "coro s = (r, s1)" by (cases "coro s")
  show "fst (wrap_exceptions coro s) \<noteq> Raise (Driver d')"
    using c tr by (cases r) (simp_all add: wrap_exceptions_def)
qed

lemma wrap_exceptions_classifies_example:
  "duplicate_key 0 =
      (Raise (Driver (Psycopg_UniqueViolation
        ''duplicate key value violates unique constraint'' (Some ''procrastinate_jobs_lock_idx''))), 1)
   \<and> wrap_exceptions duplicate_key 0 =
        (Raise (UniqueViolation (Some ''procrastinate_jobs_lock_idx'')), 1)
   \<and> wrap_exceptions always_other 0 =
        (Raise (ConnectorException None (Some other_failure)), 1)"
proof -
  have c: "duplicate_key 0 =
      (Raise (Driver (Psycopg_UniqueViolation
        ''duplicate key value violates unique constraint'' (Some ''procrastinate_jobs_lock_idx''))), 1)"
    by (simp add: duplicate_key_def)
  have o: "always_other 0 = (Raise (Driver (Psycopg_OperationalError ''connection timeout expired'')), 1)"
    by (simp add: always_other_def other_failure_def)
  from wrap_exceptions_classifies [of duplicate_key 0 _ 1] c
    wrap_exceptions_classifies [of always_other 0 _ 1] o
  show ?thesis by (simp add: other_failure_def)
qed

section \<open>Properties of the pool manager and of the parameter adaptation\<close>

lemma open_async_opened:
  "priv_pool self = Some p0 \<Longrightarrow> open_async env pool_arg (self, w) = (Return (), (self, w))"
  by (simp add: open_async_def)

lemma ensure_open_Return:
  "ensure_open env p (self, w) = (Return u, (self1, w1)) \<Longrightarrow>
     self1 = self \<and> pool_open env p w = (Return u, w1)"
  by (auto simp: ensure_open_def split: prod.splits)

lemma open_async_sets_pool:
  assumes "open_async env pool_arg (self, w) = (Return (), (self1, w1))"
  shows "\<exists>p. priv_pool self1 = Some p"
proof (cases "priv_pool self")
  case (Some p0)
  with assms show ?thesis by (simp add: open_async_def)
next
  case None
  show ?thesis
  proof (cases pool_arg)
    case (Some p)
    with None assms have
      "ensure_open env p (self\<lparr>priv_pool_externally_set := True, priv_pool := Some p\<rparr>, w) =
         (Return (), (self1, w1))"
      by (simp add: open_async_def)
    from ensure_open_Return [OF this] show ?thesis by auto
  next
    case n: None
    obtain r w' where c: "create_pool env (priv_pool_args self) w = (r, w')"
      by (cases "create_pool env (priv_pool_args self) w")
    show ?thesis
    proof (cases r)
      case (Return p)
      with None n c assms have
        "ensure_open env p (self\<lparr>priv_pool := Some p\<rparr>, w') = (Return (), (self1, w1))"
        by (simp add: open_async_def)
      from ensure_open_Return [OF this] show ?thesis by auto
    next
      case (Raise e)
      with None n c assms show ?thesis by (simp add: open_async_def)
    next
      case Pending
      with None n c assms show ?thesis by (simp add: open_async_def)
    qed
  qed
qed

text \<open>
  C7. After \<^verbatim>\<open>open_async\<close> has returned, the connector holds a pool, and a second
  \<^verbatim>\<open>open_async\<close> (with or without a pool argument) returns at once: the connector, its
  pool handle included, and the world are exactly what they were, so nothing was created,
  adopted or opened again.
\<close>
theorem open_async_idempotent:
  assumes "open_async env pool1 (self, w) = (Return (), (self1, w1))"
  shows "priv_pool self1 \<noteq> None
    \<and> open_async env pool2 (self1, w1) = (Return (), (self1, w1))"
proof -
  from open_async_sets_pool [OF assms] obtain p where p: "priv_pool self1 = Some p" by blast
  from p open_async_opened [OF p] show ?thesis by simp
qed

lemma open_example:
  "open_async example_driver None (unopened_connector, 0) =
     (Return (), (unopened_connector\<lparr>priv_pool := Some \<lparr>pool_id = 0, max_size = 10\<rparr>\<rparr>, 2))"
  by (simp add: open_async_def unopened_connector_def example_driver_def create_pool_def
      wrap_exceptions_def ensure_open_def)

theorem open_async_idempotent_witness:
  "open_async example_driver None (unopened_connector, 0) =
     (Return (), (unopened_connector\<lparr>priv_pool := Some \<lparr>pool_id = 0, max_size = 10\<rparr>\<rparr>, 2))
   \<and> open_async example_driver (Some example_pool)
        (unopened_connector\<lparr>priv_pool := Some \<lparr>pool_id = 0, max_size = 10\<rparr>\<rparr>, 2) =
     (Return (), (unopened_connector\<lparr>priv_pool := Some \<lparr>pool_id = 0, max_size = 10\<rparr>\<rparr>, 2))"
  using open_async_idempotent [OF open_example, of "Some example_pool"] open_example by simp

lemma close_async_noop:
  "priv_pool self = None \<or> priv_pool_externally_set self \<Longrightarrow>
     close_async env (self, w) = (Return (), (self, w))"
  by (auto simp: close_async_def close_async_body_def wrap_exceptions_def split: option.splits)

lemma open_async_adopts:
  assumes n: "priv_pool self = None"
    and o: "open_async env (Some p) (self, w) = (Return (), (self1, w1))"
  shows "priv_pool self1 = Some p \<and> priv_pool_externally_set self1"
proof -
  from n o have
    "ensure_open env p (self\<lparr>priv_pool_externally_set := True, priv_pool := Some p\<rparr>, w) =
       (Return (), (self1, w1))"
    by (simp add: open_async_def)
  from ensure_open_Return [OF this] show ?thesis by auto
qed

lemma close_async_closes:
  "priv_pool self = Some p \<Longrightarrow> \<not> priv_pool_externally_set self \<Longrightarrow>
   pool_close env p w = (Return (), w') \<Longrightarrow>
     close_async env (self, w) = (Return (), (self\<lparr>priv_pool := None\<rparr>, w'))"
  by (simp add: close_async_def close_async_body_def wrap_exceptions_def)

lemma open_async_creates:
  "priv_pool self = None \<Longrightarrow> AsyncConnectionPool env (priv_pool_args self) w = (Return p', w1) \<Longrightarrow>
   pool_open env p' w1 = (Return (), w2) \<Longrightarrow>
     open_async env None (self, w) = (Return (), (self\<lparr>priv_pool := Some p'\<rparr>, w2))"
  by (simp add: open_async_def create_pool_def wrap_exceptions_def ensure_open_def)

text \<open>
  C8. \<^verbatim>\<open>close_async\<close> returns with the connector and the world unchanged when the
  connector has no pool or when its pool was externally set; in particular, after
  \<^verbatim>\<open>open_async\<close> adopted a supplied pool, \<^verbatim>\<open>close_async\<close> leaves the world, and with it
  that pool, exactly as it was (the pool's \<^verbatim>\<open>close\<close> is not called). Otherwise it calls the
  pool's \<^verbatim>\<open>close\<close> and, when that returns, clears \<^verbatim>\<open>_pool\<close>, so that a following
  \<^verbatim>\<open>open_async\<close> without argument constructs a pool from the stored arguments and holds
  it once it is opened.
\<close>
theorem close_async_frame:
  "(priv_pool self = None \<or> priv_pool_externally_set self \<longrightarrow>
      close_async env (self, w) = (Return (), (self, w)))
   \<and> (priv_pool self = None \<and> open_async env (Some p) (self, w) = (Return (), (self1, w1)) \<longrightarrow>
        priv_pool self1 = Some p \<and> close_async env (self1, w1) = (Return (), (self1, w1)))
   \<and> (priv_pool self = Some p \<and> \<not> priv_pool_externally_set self
        \<and> pool_close env p w = (Return (), w') \<longrightarrow>
        close_async env (self, w) = (Return (), (self\<lparr>priv_pool := None\<rparr>, w'))
        \<and> (AsyncConnectionPool env (priv_pool_args self) w' = (Return p', w1')
             \<and> pool_open env p' w1' = (Return (), w2') \<longrightarrow>
             open_async env None (self\<lparr>priv_pool := None\<rparr>, w') =
               (Return (), (self\<lparr>priv_pool := Some p'\<rparr>, w2'))))"
proof (intro conjI impI)
  assume "priv_pool self = None \<or> priv_pool_externally_set self"
  then show "close_async env (self, w) = (Return (), (self, w))" by (rule close_async_noop)
next
  assume h: "priv_pool self = None \<and> open_async env (Some p) (self, w) = (Return (), (self1, w1))"
  then have n: "priv_pool self = None"
    and o: "open_async env (Some p) (self, w) = (Return (), (self1, w1))" by simp_all
  from open_async_adopts [OF n o]
  have a: "priv_pool self1 = Some p" and b: "priv_pool_externally_set self1" by simp_all
  from a show "priv_pool self1 = Some p" .
  from b show "close_async env (self1, w1) = (Return (), (self1, w1))"
    by (simp add: close_async_noop)
next
  assume h: "priv_pool self = Some p \<and> \<not> priv_pool_externally_set self
        \<and> pool_close env p w = (Return (), w')"
  then show "close_async env (self, w) = (Return (), (self\<lparr>priv_pool := None\<rparr>, w'))"
    by (simp add: close_async_closes)
next
  assume "AsyncConnectionPool env (priv_pool_args self) w' = (Return p', w1')
             \<and> pool_open env p' w1' = (Return (), w2')"
  then have "open_async env None (self\<lparr>priv_pool := None\<rparr>, w') =
               (Return (), (self\<lparr>priv_pool := None\<rparr>\<lparr>priv_pool := Some p'\<rparr>, w2'))"
    using open_async_creates [of "self\<lparr>priv_pool := None\<rparr>" env w' p' w1' w2'] by simp
  then show "open_async env None (self\<lparr>priv_pool := None\<rparr>, w') =
               (Return (), (self\<lparr>priv_pool := Some p'\<rparr>, w2'))" by simp
qed

lemma open_external_example:
  "open_async example_driver (Some external_pool) (unopened_connector, 0) =
     (Return (), (adopted_connector, 1))"
  by (simp add: open_async_def unopened_connector_def adopted_connector_def example_driver_def
      ensure_open_def)

theorem close_async_frame_witness:
  "priv_pool unopened_connector = None
   \<and> open_async example_driver (Some external_pool) (unopened_connector, 0) =
       (Return (), (adopted_connector, 1))
   \<and> priv_pool adopted_connector = Some external_pool
   \<and> priv_pool_externally_set adopted_connector
   \<and> close_async example_driver (adopted_connector, 1) = (Return (), (adopted_connector, 1))
   \<and> close_async example_driver (unopened_connector, 0) = (Return (), (unopened_connector, 0))
   \<and> priv_pool example_connector = Some example_pool
   \<and> pool_close example_driver example_pool 5 = (Return (), 6)
   \<and> close_async example_driver (example_connector, 5) =
       (Return (), (example_connector\<lparr>priv_pool := None\<rparr>, 6))
   \<and> AsyncConnectionPool example_driver (priv_pool_args example_connector) 6 =
       (Return \<lparr>pool_id = 6, max_size = 10\<rparr>, 7)
   \<and> pool_open example_driver \<lparr>pool_id = 6, max_size = 10\<rparr> 7 = (Return (), 8)
   \<and> open_async example_driver None (example_connector\<lparr>priv_pool := None\<rparr>, 6) =
       (Return (), (example_connector\<lparr>priv_pool := Some \<lparr>pool_id = 6, max_size = 10\<rparr>\<rparr>, 8))"
proof -
  have n: "priv_pool unopened_connector = None" by (simp add: unopened_connector_def)
  have e: "priv_pool_externally_set adopted_connector" by (simp add: adopted_connector_def)
  have p: "priv_pool example_connector = Some example_pool"
    and x: "\<not> priv_pool_externally_set example_connector"
    by (simp_all add: example_connector_def)
  have c: "pool_close example_driver example_pool 5 = (Return (), 6)"
    by (simp add: example_driver_def)
  have a: "AsyncConnectionPool example_driver (priv_pool_args example_connector) 6 =
       (Return \<lparr>pool_id = 6, max_size = 10\<rparr>, 7)"
    by (simp add: example_driver_def)
  have b: "pool_open example_driver \<lparr>pool_id = 6, max_size = 10\<rparr> 7 = (Return (), 8)"
    by (simp add: example_driver_def)
  from close_async_frame
      [of unopened_connector example_driver 0 external_pool adopted_connector 1]
    close_async_frame
      [of adopted_connector example_driver 1]
    close_async_frame
      [of example_connector example_driver 5 example_pool _ _ 6
          "\<lparr>pool_id = 6, max_size = 10\<rparr>" 7 8]
    n e p x c a b open_external_example
  show ?thesis by simp
qed

lemma wrap_json_keys: "map fst (wrap_json self arguments) = map fst arguments"
  by (induction arguments) (auto simp: wrap_json_def)

lemma wrap_json_lookup:
  "map_of (wrap_json self arguments) key =
     (case map_of arguments key of
        None \<Rightarrow> None
      | Some v \<Rightarrow> Some (if isinstance_dict v then Jsonb v (json_dumps self) else v))"
  by (induction arguments) (auto simp: wrap_json_def)

text \<open>
  C9. \<^verbatim>\<open>_wrap_json\<close> keeps the keys of the arguments, in their order; the value of a key
  is wrapped as \<^verbatim>\<open>Jsonb(value, dumps=self.json_dumps)\<close> when it is a mapping (a \<^verbatim>\<open>dict\<close>),
  and is passed unchanged when it is anything else; a key that is absent stays absent.
\<close>
theorem wrap_json_adapts:
  "map fst (wrap_json self arguments) = map fst arguments
   \<and> (map_of arguments key = Some v \<and> isinstance_dict v \<longrightarrow>
        map_of (wrap_json self arguments) key = Some (Jsonb v (json_dumps self)))
   \<and> (map_of arguments key = Some v \<and> \<not> isinstance_dict v \<longrightarrow>
        map_of (wrap_json self arguments) key = Some v)
   \<and> (map_of arguments key = None \<longrightarrow> map_of (wrap_json self arguments) key = None)"
  by (simp add: wrap_json_keys wrap_json_lookup)

lemma wrap_json_example:
  "wrap_json custom_connector example_arguments =
     [(''queue'', PyStr ''default''),
      (''args'', Jsonb (PyDict [(PyStr ''a'', PyInt 1)]) (Some ''custom_dumps'')),
      (''ids'', PyList [PyInt 1, PyInt 2]),
      (''lock'', PyNone)]"
  by (simp add: wrap_json_def example_arguments_def custom_connector_def)

theorem wrap_json_adapts_witness:
  "map_of example_arguments ''args'' = Some (PyDict [(PyStr ''a'', PyInt 1)])
   \<and> isinstance_dict (PyDict [(PyStr ''a'', PyInt 1) :: string py_value \<times> string py_value])
   \<and> map_of (wrap_json custom_connector example_arguments) ''args'' =
       Some (Jsonb (PyDict [(PyStr ''a'', PyInt 1)]) (Some ''custom_dumps''))
   \<and> map_of example_arguments ''ids'' = Some (PyList [PyInt 1, PyInt 2])
   \<and> \<not> isinstance_dict (PyList [PyInt 1, PyInt 2 :: string py_value])
   \<and> map_of (wrap_json custom_connector example_arguments) ''ids'' =
       Some (PyList [PyInt 1, PyInt 2])
   \<and> map_of example_arguments ''missing'' = None
   \<and> map_of (wrap_json custom_connector example_arguments) ''missing'' = None
   \<and> map fst (wrap_json custom_connector example_arguments) =
       [''queue'', ''args'', ''ids'', ''lock'']"
proof -
  have a: "map_of example_arguments ''args'' = Some (PyDict [(PyStr ''a'', PyInt 1)])"
    and i: "map_of example_arguments ''ids'' = Some (PyList [PyInt 1, PyInt 2])"
    and m: "map_of example_arguments ''missing'' = None"
    and k: "map fst example_arguments = [''queue'', ''args'', ''ids'', ''lock'']"
    by (simp_all add: example_arguments_def)
  have d: "json_dumps custom_connector = Some ''custom_dumps''"
    by (simp add: custom_connector_def)
  from wrap_json_adapts [of custom_connector example_arguments "''args''"
         "PyDict [(PyStr ''a'', PyInt 1)]"]
    wrap_json_adapts [of custom_connector example_arguments "''ids''"
         "PyList [PyInt 1, PyInt 2]"]
    wrap_json_adapts [of custom_connector example_arguments "''missing''"]
    a i m k d
  show ?thesis by simp
qed

section \<open>The classifier at the entry points of the connector\<close>

lemma open_async_raises_raw:
  "priv_pool self = None \<Longrightarrow> pool_open env p w = (Raise (Driver d), w') \<Longrightarrow>
     open_async env (Some p) (self, w) =
       (Raise (Driver d),
        (self\<lparr>priv_pool_externally_set := True, priv_pool := Some p\<rparr>, w'))"
  by (simp add: open_async_def ensure_open_def)

lemma open_async_created_raises_raw:
  "priv_pool self = None \<Longrightarrow>
   AsyncConnectionPool env (priv_pool_args self) w = (Return p, w1) \<Longrightarrow>
   pool_open env p w1 = (Raise (Driver d), w2) \<Longrightarrow>
     open_async env None (self, w) = (Raise (Driver d), (self\<lparr>priv_pool := Some p\<rparr>, w2))"
  by (simp add: open_async_def create_pool_def wrap_exceptions_def ensure_open_def)

text \<open>
  C4. The claim is that every driver failure raised during a pool, connection or query
  operation leaves the layer as \<^verbatim>\<open>UniqueViolation\<close> or as \<^verbatim>\<open>ConnectorException\<close> with the
  failure as cause, so that no driver exception escapes. It fails at \<^verbatim>\<open>open_async\<close>, the
  one coroutine of the connector that calls the pool without the \<^verbatim>\<open>wrap_exceptions\<close>
  decorator: when \<^verbatim>\<open>await self._pool.open()\<close> raises the driver's operational error for a
  pool that was closed before, for a supplied pool as for one just constructed,
  \<^verbatim>\<open>open_async\<close> raises that driver exception itself. The same failure of the pool's
  \<^verbatim>\<open>close\<close> in the decorated \<^verbatim>\<open>close_async\<close> is raised as \<^verbatim>\<open>ConnectorException\<close> with the
  failure as cause.
\<close>

theorem open_async_leaks_driver_error:
  "open_async failing_pool_driver (Some external_pool) (unopened_connector, 0) =
     (Raise pool_closed, (adopted_connector, 1))
   \<and> open_async failing_pool_driver None (unopened_connector, 0) =
     (Raise pool_closed,
      (unopened_connector\<lparr>priv_pool := Some \<lparr>pool_id = 0, max_size = 10\<rparr>\<rparr>, 2))
   \<and> is_Driver pool_closed
   \<and> close_async failing_pool_driver (example_connector, 0) =
     (Raise (ConnectorException None (Some pool_closed)), (example_connector, 1))"
proof -
  have n: "priv_pool unopened_connector = None" by (simp add: unopened_connector_def)
  have o: "pool_open failing_pool_driver p w =
      (Raise (Driver (Psycopg_OperationalError
         ''the pool has already been opened/closed and cannot be reused'')), Suc w)" for p w
    by (simp add: failing_pool_driver_def pool_closed_def)
  have a: "AsyncConnectionPool failing_pool_driver (priv_pool_args unopened_connector) 0 =
      (Return \<lparr>pool_id = 0, max_size = 10\<rparr>, 1)"
    by (simp add: failing_pool_driver_def example_driver_def)
  have e: "unopened_connector\<lparr>priv_pool_externally_set := True, priv_pool := Some external_pool\<rparr>
      = adopted_connector"
    by (simp add: unopened_connector_def adopted_connector_def)
  have 1: "open_async failing_pool_driver (Some external_pool) (unopened_connector, 0) =
     (Raise pool_closed, (adopted_connector, 1))"
    using open_async_raises_raw [OF n o, of external_pool 0] e by (simp add: pool_closed_def)
  have 2: "open_async failing_pool_driver None (unopened_connector, 0) =
     (Raise pool_closed,
      (unopened_connector\<lparr>priv_pool := Some \<lparr>pool_id = 0, max_size = 10\<rparr>\<rparr>, 2))"
    using open_async_created_raises_raw [OF n a o] by (simp add: pool_closed_def)
  have 3: "is_Driver pool_closed" by (simp add: pool_closed_def)
  have 4: "close_async failing_pool_driver (example_connector, 0) =
     (Raise (ConnectorException None (Some pool_closed)), (example_connector, 1))"
    by (simp add: close_async_def close_async_body_def wrap_exceptions_def
        failing_pool_driver_def example_connector_def pool_closed_def)
  from 1 2 3 4 show ?thesis by simp
qed

section \<open>Properties of the notification bridge\<close>

text \<open>
  C6. When the connector's pool has maximum size 1, \<^verbatim>\<open>listen_notify\<close> returns, whatever
  the fuel, having only logged its warning: the world and the signal are unchanged, and
  the trace gains no connection, no statement and no \<^verbatim>\<open>event.set()\<close>.
\<close>
theorem listen_notify_max_size_one:
  assumes "priv_pool self = Some p" and "max_size p = 1"
  shows "listen_notify n env self channels s = (Return (), s\<lparr>trace := trace s @ [Warning]\<rparr>)"
  using assms by (simp add: listen_notify_def listen_notify_body_def pool_def wrap_exceptions_def)

theorem listen_notify_max_size_one_witness:
  "priv_pool single_connector = Some \<lparr>pool_id = 0, max_size = 1\<rparr>
   \<and> max_size \<lparr>pool_id = 0, max_size = 1\<rparr> = 1
   \<and> listen_notify 0 example_driver single_connector (Sequence [''a'', ''b'']) initial =
       (Return (), \<lparr>world = 0, signal = False, trace = [Warning]\<rparr>)
   \<and> listen_notify 9 example_driver single_connector (Sequence [''a'', ''b'']) initial =
       (Return (), \<lparr>world = 0, signal = False, trace = [Warning]\<rparr>)"
proof -
  have p: "priv_pool single_connector = Some \<lparr>pool_id = 0, max_size = 1\<rparr>"
    by (simp add: single_connector_def)
  have m: "max_size \<lparr>pool_id = 0, max_size = 1\<rparr> = 1" by simp
  from listen_notify_max_size_one [OF p m, of 0 example_driver "Sequence [''a'', ''b'']" initial]
    listen_notify_max_size_one [OF p m, of 9 example_driver "Sequence [''a'', ''b'']" initial] p
  show ?thesis by (simp add: initial_def)
qed

lemma track_signal [simp]: "track st EventSet = st" "track st EventClear = st"
  by simp_all

lemma discipline_append:
  "signal_discipline qs st (xs @ ys) =
     (signal_discipline qs st xs \<and> signal_discipline qs (foldl track st xs) ys)"
  by (induction qs st xs rule: signal_discipline.induct) simp_all

lemma perform_effect:
  "perform call act s = (r, s') \<Longrightarrow> trace s' = trace s @ [act r] \<and> signal s' = signal s"
  by (auto simp: perform_def split: prod.splits)

lemma event_set_effect:
  "trace (event_set s) = trace s @ [EventSet]" "signal (event_set s) = True"
  by (simp_all add: event_set_def)

lemma subscribe_all_discipline:
  "subscribe_all env c chs s = (r, rest, s') \<Longrightarrow>
   signal_discipline qs (None, []) (trace s) \<Longrightarrow>
   foldl track (None, []) (trace s) = (Some c, seen) \<Longrightarrow>
     signal_discipline qs (None, []) (trace s')
     \<and> (r = Return () \<longrightarrow>
          foldl track (None, []) (trace s') = (Some c, seen @ map (listen_query env) chs))"
proof (induction chs arbitrary: s seen)
  case Nil
  then show ?case by simp
next
  case (Cons ch chs)
  obtain r1 s1 where p: "perform (execute env c (listen_query env ch))
             (Execute c (listen_query env ch)) s = (r1, s1)"
    by (cases "perform (execute env c (listen_query env ch)) (Execute c (listen_query env ch)) s")
  from perform_effect [OF p]
  have t: "trace s1 = trace s @ [Execute c (listen_query env ch) r1]" by simp
  have g1: "signal_discipline qs (None, []) (trace s1)"
    using t Cons.prems(2) by (simp add: discipline_append)
  show ?case
  proof (cases r1)
    case (Return u)
    have f1: "foldl track (None, []) (trace s1) = (Some c, seen @ [listen_query env ch])"
      using t Cons.prems(3) Return by simp
    from Cons.prems(1) p Return have "subscribe_all env c chs s1 = (r, rest, s')" by simp
    from Cons.IH [OF this g1 f1] show ?thesis by simp
  next
    case (Raise e)
    with Cons.prems(1) p have "s' = s1" "r = Raise e" by simp_all
    with g1 show ?thesis by simp
  next
    case Pending
    with Cons.prems(1) p have "s' = s1" "r = Pending" by simp_all
    with g1 show ?thesis by simp
  qed
qed

lemma notifies_loop_discipline:
  "notifies_loop n env c s = (r, s') \<Longrightarrow>
   signal_discipline qs (None, []) (trace s) \<Longrightarrow>
   foldl track (None, []) (trace s) = (Some c0, qs) \<Longrightarrow>
     signal_discipline qs (None, []) (trace s')
     \<and> foldl track (None, []) (trace s') = (Some c0, qs)"
proof (induction n arbitrary: s)
  case 0
  then show ?case by simp
next
  case (Suc n)
  obtain r1 s1 where p: "perform (notifies_next env c) (Notifies c) s = (r1, s1)"
    by (cases "perform (notifies_next env c) (Notifies c) s")
  from perform_effect [OF p] have t: "trace s1 = trace s @ [Notifies c r1]" by simp
  have g1: "signal_discipline qs (None, []) (trace s1)"
    using t Suc.prems(2) by (simp add: discipline_append)
  have f1: "foldl track (None, []) (trace s1) = (Some c0, qs)"
    using t Suc.prems(3) by simp
  show ?case
  proof (cases r1)
    case (Return x)
    show ?thesis
    proof (cases x)
      case None
      with Suc.prems(1) p Return have "s' = s1" by simp
      with g1 f1 show ?thesis by simp
    next
      case (Some u)
      with Suc.prems(1) p Return have l: "notifies_loop n env c (event_set s1) = (r, s')" by simp
      have g2: "signal_discipline qs (None, []) (trace (event_set s1))"
        using g1 f1 by (simp add: event_set_effect discipline_append)
      have f2: "foldl track (None, []) (trace (event_set s1)) = (Some c0, qs)"
        using f1 by (simp add: event_set_effect)
      from Suc.IH [OF l g2 f2] show ?thesis .
    qed
  next
    case (Raise e)
    with Suc.prems(1) p have "s' = s1" by simp
    with g1 f1 show ?thesis by simp
  next
    case Pending
    with Suc.prems(1) p have "s' = s1" by simp
    with g1 f1 show ?thesis by simp
  qed
qed

lemma loop_notify_body_discipline:
  "loop_notify_body n env c s = (r, s') \<Longrightarrow>
   signal_discipline qs (None, []) (trace s) \<Longrightarrow>
   foldl track (None, []) (trace s) = (Some c0, qs) \<Longrightarrow>
     signal_discipline qs (None, []) (trace s')
     \<and> foldl track (None, []) (trace s') = (Some c0, qs)"
proof (induction n arbitrary: s)
  case 0
  then show ?case by simp
next
  case (Suc n)
  show ?case
  proof (cases "closed env c (world s)")
    case True
    with Suc.prems(1) have "s' = s\<lparr>trace := trace s @ [Closed c True]\<rparr>" by simp
    with Suc.prems(2,3) show ?thesis by (simp add: discipline_append)
  next
    case False
    let ?s0 = "s\<lparr>trace := trace s @ [Closed c False]\<rparr>"
    have g0: "signal_discipline qs (None, []) (trace ?s0)"
      using Suc.prems(2) by (simp add: discipline_append)
    have f0: "foldl track (None, []) (trace ?s0) = (Some c0, qs)"
      using Suc.prems(3) by simp
    obtain r1 s1 where l: "notifies_loop n env c ?s0 = (r1, s1)"
      by (cases "notifies_loop n env c ?s0")
    from notifies_loop_discipline [OF l g0 f0]
    have g1: "signal_discipline qs (None, []) (trace s1)"
      and f1: "foldl track (None, []) (trace s1) = (Some c0, qs)" by simp_all
    show ?thesis
    proof (cases r1)
      case (Return u)
      with Suc.prems(1) False l have "loop_notify_body n env c s1 = (r, s')" by simp
      from Suc.IH [OF this g1 f1] show ?thesis .
    next
      case (Raise e)
      show ?thesis
      proof (cases "is_OperationalError e")
        case True
        with Suc.prems(1) False l Raise have "loop_notify_body n env c s1 = (r, s')" by simp
        from Suc.IH [OF this g1 f1] show ?thesis .
      next
        case o: False
        with Suc.prems(1) False l Raise have "s' = s1" by simp
        with g1 f1 show ?thesis by simp
      qed
    next
      case Pending
      with Suc.prems(1) False l have "s' = s1" by simp
      with g1 f1 show ?thesis by simp
    qed
  qed
qed

lemma wrap_exceptions_state: "snd (wrap_exceptions coro s) = snd (coro s)"
  by (simp add: wrap_exceptions_def split: prod.splits outcome.splits)

lemma loop_notify_discipline:
  assumes "loop_notify n env c s = (r, s')"
    and "signal_discipline qs (None, []) (trace s)"
    and "foldl track (None, []) (trace s) = (Some c0, qs)"
  shows "signal_discipline qs (None, []) (trace s')"
proof -
  have "snd (loop_notify_body n env c s) = s'"
    using assms(1) wrap_exceptions_state [of "loop_notify_body n env c" s]
    by (simp add: loop_notify_def)
  then obtain r1 where "loop_notify_body n env c s = (r1, s')"
    by (cases "loop_notify_body n env c s") simp
  from loop_notify_body_discipline [OF this assms(2,3)] show ?thesis by simp
qed

lemma for_channels_sequence:
  "for_channels env c (Sequence names) s = (r, channels', s') \<Longrightarrow>
     channels' = Sequence names \<and> (\<exists>rest. subscribe_all env c names s = (r, rest, s'))"
  by (auto simp: for_channels_def split: prod.splits)

lemma listen_block_discipline:
  assumes b: "listen_block n env c (Sequence names) s = (r, channels', s')"
    and g: "signal_discipline (map (listen_query env) names) (None, []) (trace s)"
    and f: "foldl track (None, []) (trace s) = (Some c, [])"
  shows "signal_discipline (map (listen_query env) names) (None, []) (trace s')
    \<and> (r = Return () \<longrightarrow> channels' = Sequence names)"
proof -
  let ?qs = "map (listen_query env) names"
  obtain r1 s1 where p: "perform (set_autocommit env c True) (SetAutocommit c True) s = (r1, s1)"
    by (cases "perform (set_autocommit env c True) (SetAutocommit c True) s")
  from perform_effect [OF p] have t: "trace s1 = trace s @ [SetAutocommit c True r1]" by simp
  have g1: "signal_discipline ?qs (None, []) (trace s1)"
    using t g by (simp add: discipline_append)
  have f1: "foldl track (None, []) (trace s1) = (Some c, [])" using t f by simp
  show ?thesis
  proof (cases r1)
    case (Return u)
    obtain r2 c2 s2 where fc: "for_channels env c (Sequence names) s1 = (r2, c2, s2)"
      by (cases "for_channels env c (Sequence names) s1")
    from for_channels_sequence [OF fc] obtain rest where
      c2: "c2 = Sequence names" and su: "subscribe_all env c names s1 = (r2, rest, s2)" by blast
    from subscribe_all_discipline [OF su g1 f1]
    have g2: "signal_discipline ?qs (None, []) (trace s2)"
      and f2: "r2 = Return () \<longrightarrow> foldl track (None, []) (trace s2) = (Some c, [] @ ?qs)"
      by simp_all
    show ?thesis
    proof (cases r2)
      case r: (Return u')
      with f2 have f2': "foldl track (None, []) (trace s2) = (Some c, ?qs)" by simp
      have g3: "signal_discipline ?qs (None, []) (trace (event_set s2))"
        using g2 f2' by (simp add: event_set_effect discipline_append)
      have f3: "foldl track (None, []) (trace (event_set s2)) = (Some c, ?qs)"
        using f2' by (simp add: event_set_effect)
      obtain r3 s3 where l: "loop_notify n env c (event_set s2) = (r3, s3)"
        by (cases "loop_notify n env c (event_set s2)")
      from b p Return fc r l have "s' = s3" "channels' = c2"
        by (simp_all add: listen_block_def)
      with loop_notify_discipline [OF l g3 f3] c2 show ?thesis by simp
    next
      case (Raise e)
      with b p Return fc have "s' = s2" "r = Raise e" by (simp_all add: listen_block_def)
      with g2 show ?thesis by simp
    next
      case Pending
      with b p Return fc have "s' = s2" "r = Pending" by (simp_all add: listen_block_def)
      with g2 show ?thesis by simp
    qed
  next
    case (Raise e)
    with b p have "s' = s1" "r = Raise e" by (simp_all add: listen_block_def)
    with g1 show ?thesis by simp
  next
    case Pending
    with b p have "s' = s1" "r = Pending" by (simp_all add: listen_block_def)
    with g1 show ?thesis by simp
  qed
qed

lemma leave_discipline:
  assumes "leave env p c r0 s = (r, s')" and "signal_discipline qs (None, []) (trace s)"
  shows "signal_discipline qs (None, []) (trace s')"
proof -
  obtain r1 s1 where p: "perform (pool_connection_exit env p c) (ConnectionExit c) s = (r1, s1)"
    by (cases "perform (pool_connection_exit env p c) (ConnectionExit c) s")
  from perform_effect [OF p] have t: "trace s1 = trace s @ [ConnectionExit c r1]" by simp
  have "s' = s1" using assms(1) p by (cases r1) (simp_all add: leave_def)
  with t assms(2) show ?thesis by (simp add: discipline_append)
qed

lemma listen_loop_discipline:
  "listen_loop n env self (Sequence names) s = (r, s') \<Longrightarrow>
   signal_discipline (map (listen_query env) names) (None, []) (trace s) \<Longrightarrow>
     signal_discipline (map (listen_query env) names) (None, []) (trace s')"
proof (induction n arbitrary: s)
  case 0
  then show ?case by simp
next
  case (Suc n)
  let ?qs = "map (listen_query env) names"
  show ?case
  proof (cases "pool self")
    case (Inl e)
    with Suc.prems show ?thesis by simp
  next
    case (Inr p)
    obtain r1 s1 where c: "perform (pool_connection env p) Connection s = (r1, s1)"
      by (cases "perform (pool_connection env p) Connection s")
    from perform_effect [OF c] have t: "trace s1 = trace s @ [Connection r1]" by simp
    have g1: "signal_discipline ?qs (None, []) (trace s1)"
      using t Suc.prems(2) by (simp add: discipline_append)
    show ?thesis
    proof (cases r1)
      case (Raise e)
      with Suc.prems(1) Inr c have "s' = s1" by simp
      with g1 show ?thesis by simp
    next
      case Pending
      with Suc.prems(1) Inr c have "s' = s1" by simp
      with g1 show ?thesis by simp
    next
      case (Return cn)
      have f1: "foldl track (None, []) (trace s1) = (Some cn, [])" using t Return by simp
      obtain r2 c2 s2 where b: "listen_block n env cn (Sequence names) s1 = (r2, c2, s2)"
        by (cases "listen_block n env cn (Sequence names) s1")
      from listen_block_discipline [OF b g1 f1]
      have g2: "signal_discipline ?qs (None, []) (trace s2)"
        and k2: "r2 = Return () \<longrightarrow> c2 = Sequence names" by simp_all
      show ?thesis
      proof (cases r2)
        case Pending
        with Suc.prems(1) Inr c Return b have "s' = s2" by simp
        with g2 show ?thesis by simp
      next
        case (Raise e)
        with Suc.prems(1) Inr c Return b have "leave env p cn (Raise e) s2 = (r, s')" by simp
        from leave_discipline [OF this g2] show ?thesis .
      next
        case rr: (Return u)
        with k2 have c2: "c2 = Sequence names" by simp
        obtain r3 s3 where l: "leave env p cn (Return ()) s2 = (r3, s3)"
          by (cases "leave env p cn (Return ()) s2")
        from leave_discipline [OF l g2] have g3: "signal_discipline ?qs (None, []) (trace s3)" .
        show ?thesis
        proof (cases r3)
          case (Return u')
          with Suc.prems(1) Inr c \<open>r1 = Return cn\<close> b rr l c2
          have "listen_loop n env self (Sequence names) s3 = (r, s')" by simp
          from Suc.IH [OF this g3] show ?thesis .
        next
          case (Raise e)
          with Suc.prems(1) Inr c \<open>r1 = Return cn\<close> b rr l have "s' = s3" by simp
          with g3 show ?thesis by simp
        next
          case Pending
          with Suc.prems(1) Inr c \<open>r1 = Return cn\<close> b rr l have "s' = s3" by simp
          with g3 show ?thesis by simp
        qed
      qed
    qed
  qed
qed

lemma perform_flag:
  "perform call act s = (r, s') \<Longrightarrow> act r \<noteq> EventSet \<Longrightarrow>
   signal s = (b \<or> EventSet \<in> set (trace s)) \<Longrightarrow>
     signal s' = (b \<or> EventSet \<in> set (trace s'))"
  by (auto simp: perform_def split: prod.splits)

lemma event_set_flag: "signal (event_set s) = (b \<or> EventSet \<in> set (trace (event_set s)))"
  by (simp add: event_set_def)

lemma subscribe_all_flag:
  "subscribe_all env c chs s = (r, rest, s') \<Longrightarrow>
   signal s = (b \<or> EventSet \<in> set (trace s)) \<Longrightarrow>
     signal s' = (b \<or> EventSet \<in> set (trace s'))"
proof (induction chs arbitrary: s)
  case Nil
  then show ?case by simp
next
  case (Cons ch chs)
  obtain r1 s1 where p: "perform (execute env c (listen_query env ch))
             (Execute c (listen_query env ch)) s = (r1, s1)"
    by (cases "perform (execute env c (listen_query env ch)) (Execute c (listen_query env ch)) s")
  from perform_flag [OF p _ Cons.prems(2)]
  have j1: "signal s1 = (b \<or> EventSet \<in> set (trace s1))" by simp
  show ?case
  proof (cases r1)
    case (Return u)
    with Cons.prems(1) p have "subscribe_all env c chs s1 = (r, rest, s')" by simp
    from Cons.IH [OF this j1] show ?thesis .
  next
    case (Raise e)
    with Cons.prems(1) p j1 show ?thesis by simp
  next
    case Pending
    with Cons.prems(1) p j1 show ?thesis by simp
  qed
qed

lemma notifies_loop_flag:
  "notifies_loop n env c s = (r, s') \<Longrightarrow>
   signal s = (b \<or> EventSet \<in> set (trace s)) \<Longrightarrow>
     signal s' = (b \<or> EventSet \<in> set (trace s'))"
proof (induction n arbitrary: s)
  case 0
  then show ?case by simp
next
  case (Suc n)
  obtain r1 s1 where p: "perform (notifies_next env c) (Notifies c) s = (r1, s1)"
    by (cases "perform (notifies_next env c) (Notifies c) s")
  from perform_flag [OF p _ Suc.prems(2)]
  have j1: "signal s1 = (b \<or> EventSet \<in> set (trace s1))" by simp
  show ?case
  proof (cases r1)
    case (Return x)
    show ?thesis
    proof (cases x)
      case None
      with Suc.prems(1) p Return j1 show ?thesis by simp
    next
      case (Some u)
      with Suc.prems(1) p Return have "notifies_loop n env c (event_set s1) = (r, s')" by simp
      from Suc.IH [OF this event_set_flag] show ?thesis .
    qed
  next
    case (Raise e)
    with Suc.prems(1) p j1 show ?thesis by simp
  next
    case Pending
    with Suc.prems(1) p j1 show ?thesis by simp
  qed
qed

lemma loop_notify_body_flag:
  "loop_notify_body n env c s = (r, s') \<Longrightarrow>
   signal s = (b \<or> EventSet \<in> set (trace s)) \<Longrightarrow>
     signal s' = (b \<or> EventSet \<in> set (trace s'))"
proof (induction n arbitrary: s)
  case 0
  then show ?case by simp
next
  case (Suc n)
  show ?case
  proof (cases "closed env c (world s)")
    case True
    with Suc.prems show ?thesis by auto
  next
    case False
    let ?s0 = "s\<lparr>trace := trace s @ [Closed c False]\<rparr>"
    have j0: "signal ?s0 = (b \<or> EventSet \<in> set (trace ?s0))" using Suc.prems(2) by simp
    obtain r1 s1 where l: "notifies_loop n env c ?s0 = (r1, s1)"
      by (cases "notifies_loop n env c ?s0")
    from notifies_loop_flag [OF l j0]
    have j1: "signal s1 = (b \<or> EventSet \<in> set (trace s1))" .
    show ?thesis
    proof (cases r1)
      case (Return u)
      with Suc.prems(1) False l have "loop_notify_body n env c s1 = (r, s')" by simp
      from Suc.IH [OF this j1] show ?thesis .
    next
      case (Raise e)
      show ?thesis
      proof (cases "is_OperationalError e")
        case True
        with Suc.prems(1) False l Raise have "loop_notify_body n env c s1 = (r, s')" by simp
        from Suc.IH [OF this j1] show ?thesis .
      next
        case o: False
        with Suc.prems(1) False l Raise j1 show ?thesis by simp
      qed
    next
      case Pending
      with Suc.prems(1) False l j1 show ?thesis by simp
    qed
  qed
qed

lemma loop_notify_flag:
  assumes "loop_notify n env c s = (r, s')"
    and "signal s = (b \<or> EventSet \<in> set (trace s))"
  shows "signal s' = (b \<or> EventSet \<in> set (trace s'))"
proof -
  have "snd (loop_notify_body n env c s) = s'"
    using assms(1) wrap_exceptions_state [of "loop_notify_body n env c" s]
    by (simp add: loop_notify_def)
  then obtain r1 where "loop_notify_body n env c s = (r1, s')"
    by (cases "loop_notify_body n env c s") simp
  from loop_notify_body_flag [OF this assms(2)] show ?thesis .
qed

lemma for_channels_flag:
  assumes "for_channels env c channels s = (r, channels', s')"
    and "signal s = (b \<or> EventSet \<in> set (trace s))"
  shows "signal s' = (b \<or> EventSet \<in> set (trace s'))"
proof (cases channels)
  case (Sequence names)
  with assms(1) obtain rest where "subscribe_all env c names s = (r, rest, s')"
    by (auto simp: for_channels_def split: prod.splits)
  from subscribe_all_flag [OF this assms(2)] show ?thesis .
next
  case (Iterator names)
  with assms(1) obtain rest where "subscribe_all env c names s = (r, rest, s')"
    by (auto simp: for_channels_def split: prod.splits)
  from subscribe_all_flag [OF this assms(2)] show ?thesis .
qed

lemma listen_block_flag:
  assumes k: "listen_block n env c channels s = (r, channels', s')"
    and j: "signal s = (b \<or> EventSet \<in> set (trace s))"
  shows "signal s' = (b \<or> EventSet \<in> set (trace s'))"
proof -
  obtain r1 s1 where p: "perform (set_autocommit env c True) (SetAutocommit c True) s = (r1, s1)"
    by (cases "perform (set_autocommit env c True) (SetAutocommit c True) s")
  from perform_flag [OF p _ j]
  have j1: "signal s1 = (b \<or> EventSet \<in> set (trace s1))" by simp
  show ?thesis
  proof (cases r1)
    case (Return u)
    obtain r2 c2 s2 where su: "for_channels env c channels s1 = (r2, c2, s2)"
      by (cases "for_channels env c channels s1")
    from for_channels_flag [OF su j1]
    have j2: "signal s2 = (b \<or> EventSet \<in> set (trace s2))" .
    show ?thesis
    proof (cases r2)
      case r: (Return u')
      obtain r3 s3 where l: "loop_notify n env c (event_set s2) = (r3, s3)"
        by (cases "loop_notify n env c (event_set s2)")
      from k p Return su r l have "s' = s3" by (simp add: listen_block_def)
      with loop_notify_flag [OF l event_set_flag] show ?thesis by simp
    next
      case (Raise e)
      with k p Return su j2 show ?thesis by (simp add: listen_block_def)
    next
      case Pending
      with k p Return su j2 show ?thesis by (simp add: listen_block_def)
    qed
  next
    case (Raise e)
    with k p j1 show ?thesis by (simp add: listen_block_def)
  next
    case Pending
    with k p j1 show ?thesis by (simp add: listen_block_def)
  qed
qed

lemma leave_flag:
  assumes "leave env p c r0 s = (r, s')" and j: "signal s = (b \<or> EventSet \<in> set (trace s))"
  shows "signal s' = (b \<or> EventSet \<in> set (trace s'))"
proof -
  obtain r1 s1 where p: "perform (pool_connection_exit env p c) (ConnectionExit c) s = (r1, s1)"
    by (cases "perform (pool_connection_exit env p c) (ConnectionExit c) s")
  from perform_flag [OF p _ j]
  have j1: "signal s1 = (b \<or> EventSet \<in> set (trace s1))" by simp
  have "s' = s1" using assms(1) p by (cases r1) (simp_all add: leave_def)
  with j1 show ?thesis by simp
qed

lemma listen_loop_flag:
  "listen_loop n env self chs s = (r, s') \<Longrightarrow>
   signal s = (b \<or> EventSet \<in> set (trace s)) \<Longrightarrow>
     signal s' = (b \<or> EventSet \<in> set (trace s'))"
proof (induction n arbitrary: s chs)
  case 0
  then show ?case by simp
next
  case (Suc n)
  show ?case
  proof (cases "pool self")
    case (Inl e)
    with Suc.prems show ?thesis by simp
  next
    case (Inr p)
    obtain r1 s1 where c: "perform (pool_connection env p) Connection s = (r1, s1)"
      by (cases "perform (pool_connection env p) Connection s")
    from perform_flag [OF c _ Suc.prems(2)]
    have j1: "signal s1 = (b \<or> EventSet \<in> set (trace s1))" by simp
    show ?thesis
    proof (cases r1)
      case (Raise e)
      with Suc.prems(1) Inr c j1 show ?thesis by simp
    next
      case Pending
      with Suc.prems(1) Inr c j1 show ?thesis by simp
    next
      case (Return cn)
      obtain r2 c2 s2 where k: "listen_block n env cn chs s1 = (r2, c2, s2)"
        by (cases "listen_block n env cn chs s1")
      from listen_block_flag [OF k j1]
      have j2: "signal s2 = (b \<or> EventSet \<in> set (trace s2))" .
      show ?thesis
      proof (cases r2)
        case Pending
        with Suc.prems(1) Inr c Return k j2 show ?thesis by simp
      next
        case (Raise e)
        with Suc.prems(1) Inr c Return k have "leave env p cn (Raise e) s2 = (r, s')" by simp
        from leave_flag [OF this j2] show ?thesis .
      next
        case rr: (Return u)
        obtain r3 s3 where l: "leave env p cn (Return ()) s2 = (r3, s3)"
          by (cases "leave env p cn (Return ()) s2")
        from leave_flag [OF l j2] have j3: "signal s3 = (b \<or> EventSet \<in> set (trace s3))" .
        show ?thesis
        proof (cases r3)
          case (Return u')
          with Suc.prems(1) Inr c \<open>r1 = Return cn\<close> k rr l
          have "listen_loop n env self c2 s3 = (r, s')" by simp
          from Suc.IH [OF this j3] show ?thesis .
        next
          case (Raise e)
          with Suc.prems(1) Inr c \<open>r1 = Return cn\<close> k rr l j3 show ?thesis by simp
        next
          case Pending
          with Suc.prems(1) Inr c \<open>r1 = Return cn\<close> k rr l j3 show ?thesis by simp
        qed
      qed
    qed
  qed
qed

lemma listen_notify_body_cases:
  "listen_notify_body n env self chs s = (r, s') \<Longrightarrow>
     s' = s \<or> s' = s\<lparr>trace := trace s @ [Warning]\<rparr> \<or> listen_loop n env self chs s = (r, s')"
  by (auto simp: listen_notify_body_def split: sum.splits if_splits)

text \<open>
  For a channels object that starts again each time it is iterated, every run of
  \<^verbatim>\<open>listen_notify\<close>, cut after any amount of fuel, obeys the discipline of the signal. For
  any channels object the bridge never turns the flag off: the flag after the run is the
  flag before it, or true when the bridge has set it.
\<close>

lemma bridge_signal_discipline_sequence:
  "signal_discipline (map (listen_query env) names) (None, [])
     (trace (snd (listen_notify n env self (Sequence names)
        \<lparr>world = w, signal = b, trace = []\<rparr>)))"
proof -
  let ?s = "\<lparr>world = w, signal = b, trace = []\<rparr>"
  let ?qs = "map (listen_query env) names"
  obtain r s' where k: "listen_notify_body n env self (Sequence names) ?s = (r, s')"
    by (cases "listen_notify_body n env self (Sequence names) ?s")
  have e: "snd (listen_notify n env self (Sequence names) ?s) = s'"
    using k wrap_exceptions_state [of "listen_notify_body n env self (Sequence names)" ?s]
    by (simp add: listen_notify_def)
  have g0: "signal_discipline ?qs (None, []) (trace ?s)" by simp
  from listen_notify_body_cases [OF k]
  consider "s' = ?s" | "s' = ?s\<lparr>trace := trace ?s @ [Warning]\<rparr>"
    | "listen_loop n env self (Sequence names) ?s = (r, s')" by blast
  then have "signal_discipline ?qs (None, []) (trace s')"
  proof cases
    case 1
    then show ?thesis by simp
  next
    case 2
    then show ?thesis by simp
  next
    case 3
    from listen_loop_discipline [OF 3 g0] show ?thesis .
  qed
  with e show ?thesis by simp
qed

lemma bridge_never_clears_flag:
  "signal (snd (listen_notify n env self channels \<lparr>world = w, signal = b, trace = []\<rparr>)) =
     (b \<or> EventSet \<in> set
        (trace (snd (listen_notify n env self channels \<lparr>world = w, signal = b, trace = []\<rparr>))))"
proof -
  let ?s = "\<lparr>world = w, signal = b, trace = []\<rparr>"
  obtain r s' where k: "listen_notify_body n env self channels ?s = (r, s')"
    by (cases "listen_notify_body n env self channels ?s")
  have e: "snd (listen_notify n env self channels ?s) = s'"
    using k wrap_exceptions_state [of "listen_notify_body n env self channels" ?s]
    by (simp add: listen_notify_def)
  have j0: "signal ?s = (b \<or> EventSet \<in> set (trace ?s))" by simp
  from listen_notify_body_cases [OF k]
  consider "s' = ?s" | "s' = ?s\<lparr>trace := trace ?s @ [Warning]\<rparr>"
    | "listen_loop n env self channels ?s = (r, s')" by blast
  then have "signal s' = (b \<or> EventSet \<in> set (trace s'))"
  proof cases
    case 1
    then show ?thesis by simp
  next
    case 2
    then show ?thesis by simp
  next
    case 3
    from listen_loop_flag [OF 3 j0] show ?thesis .
  qed
  with e show ?thesis by simp
qed

lemma bridge_run_sequence:
  "listen_notify 5 example_driver example_connector (Sequence [''a'', ''b'']) initial =
     (Pending,
      \<lparr>world = 14, signal = True,
       trace =
         [Connection (Return 0), SetAutocommit 0 True (Return ()),
          Execute 0 (Composed ''LISTEN {channel_name};'' ''a'') (Return ()),
          Execute 0 (Composed ''LISTEN {channel_name};'' ''b'') (Return ()),
          EventSet, Closed 0 False, Notifies 0 (Return (Some ())), EventSet,
          Notifies 0 (Return (Some ())), EventSet,
          Notifies 0 (Raise connection_lost),
          Closed 0 True, ConnectionExit 0 (Return ()), Connection (Return 8),
          SetAutocommit 8 True (Return ()),
          Execute 8 (Composed ''LISTEN {channel_name};'' ''a'') (Return ()),
          Execute 8 (Composed ''LISTEN {channel_name};'' ''b'') (Return ()),
          EventSet, Closed 8 False, Notifies 8 (Return (Some ())), EventSet,
          Notifies 8 (Return (Some ())), EventSet]\<rparr>)"
  by code_simp

lemma discipline_rejects_partial:
  "\<not> signal_discipline
       (map (listen_query example_driver) [''a'', ''b'']) (None, [])
       [Connection (Return 0), SetAutocommit 0 True (Return ()),
        Execute 0 (Composed ''LISTEN {channel_name};'' ''a'') (Return ()),
        EventSet]"
  by (simp add: listen_query_def example_driver_def)

lemma discipline_rejects_failed_subscribe:
  "\<not> signal_discipline
       (map (listen_query example_driver) [''a'']) (None, [])
       [Connection (Return 0), SetAutocommit 0 True (Return ()),
        Execute 0 (Composed ''LISTEN {channel_name};'' ''a'') (Raise connection_lost),
        EventSet]"
  by (simp add: listen_query_def example_driver_def)

lemma bridge_run_iterator:
  "listen_notify 5 example_driver example_connector (Iterator [''a'', ''b'']) initial =
     (Pending,
      \<lparr>world = 12, signal = True,
       trace =
         [Connection (Return 0), SetAutocommit 0 True (Return ()),
          Execute 0 (Composed ''LISTEN {channel_name};'' ''a'') (Return ()),
          Execute 0 (Composed ''LISTEN {channel_name};'' ''b'') (Return ()),
          EventSet, Closed 0 False, Notifies 0 (Return (Some ())), EventSet,
          Notifies 0 (Return (Some ())), EventSet,
          Notifies 0 (Raise connection_lost),
          Closed 0 True, ConnectionExit 0 (Return ()), Connection (Return 8),
          SetAutocommit 8 True (Return ()),
          EventSet, Closed 8 False, Notifies 8 (Return (Some ())), EventSet,
          Notifies 8 (Return (Some ())), EventSet]\<rparr>)"
  by code_simp

text \<open>
  C2. The claim is that the bridge never clears the signal and sets it only after the
  subscribe statement of every channel has succeeded on the current dedicated connection.
  The first part holds. The second fails when \<^verbatim>\<open>channels\<close> is a one-shot iterator, which
  the parameter's type \<^verbatim>\<open>Iterable[str]\<close> admits: the first pass of the outer loop takes
  all its names, so after the connection is lost the next pass obtains connection 8,
  issues no subscribe statement on it, and sets the signal all the same. The trace of
  that run is not accepted by the discipline of the signal for the channels \<open>a\<close> and
  \<open>b\<close>.
\<close>

theorem bridge_iterator_sets_signal_unsubscribed:
  "trace (snd (listen_notify 5 example_driver example_connector
       (Iterator [''a'', ''b'']) initial)) =
     [Connection (Return 0), SetAutocommit 0 True (Return ()),
      Execute 0 (Composed ''LISTEN {channel_name};'' ''a'') (Return ()),
      Execute 0 (Composed ''LISTEN {channel_name};'' ''b'') (Return ()),
      EventSet, Closed 0 False, Notifies 0 (Return (Some ())), EventSet,
      Notifies 0 (Return (Some ())), EventSet,
      Notifies 0 (Raise connection_lost),
      Closed 0 True, ConnectionExit 0 (Return ()), Connection (Return 8),
      SetAutocommit 8 True (Return ()),
      EventSet, Closed 8 False, Notifies 8 (Return (Some ())), EventSet,
      Notifies 8 (Return (Some ())), EventSet]
   \<and> \<not> signal_discipline (map (listen_query example_driver) [''a'', ''b'']) (None, [])
         (trace (snd (listen_notify 5 example_driver example_connector
            (Iterator [''a'', ''b'']) initial)))"
proof -
  have q: "map (listen_query example_driver) [''a'', ''b''] =
      [Composed ''LISTEN {channel_name};'' ''a'', Composed ''LISTEN {channel_name};'' ''b'']"
    by (simp add: listen_query_def example_driver_def)
  show ?thesis unfolding q by (simp add: bridge_run_iterator)
qed

end
